theory Spec2Isabelle
  imports Complex_Main
begin

section \<open>Grid snapping: \<open>SchematicScene::nearingGridPoint\<close>\<close>

text \<open>
  The argument is a \<open>QPointF\<close>, a pair of \<open>qreal\<close> coordinates, taken here as reals. The
  first statement, \<open>QPoint point = pos.toPoint()\<close>, rounds each coordinate to an \<open>int\<close>:
  \<open>QPointF::toPoint\<close> is \<open>QPoint(qRound(xp), qRound(yp))\<close>, and \<open>qRound\<close> of Qt's
  \<open>qglobal.h\<close> is
  \<^verbatim>\<open>d >= 0.0 ? int(d + 0.5) : int(d - int(d-1) + 0.5) + int(d-1)\<close>
  where the conversion \<open>int(...)\<close> of a floating-point number drops the fraction
  (\<open>c_trunc\<close>); this is the \<open>qRound\<close> of Qt 4, the version of the \<open>qSort\<close> and \<open>foreach\<close> this
  file uses. Coordinates are taken within the range of \<open>int\<close>. The rest of the function
  works on machine integers, and the result \<open>QPointF(x, y)\<close> holds the two \<open>int\<close>s exactly.

  The members \<open>m_gridWidth\<close> and \<open>m_gridHeight\<close> are declared in
  \<open>schematicscene.h\<close>, which is not among the sources. \<open>setGridSize\<close> assigns them
  from \<open>const uint\<close> parameters and \<open>init\<close> from the \<open>static const uint
  DEFAULT_GRID_SPACE\<close>; the declared type is the parameter \<open>GridDecl\<close> of the model.
  With \<open>Grid_uint\<close> the usual arithmetic conversions turn \<open>x\<close> into an
  \<open>unsigned int\<close> in every mixed expression; with \<open>Grid_int\<close> all arithmetic is
  signed, \<open>/\<close> and \<open>%\<close> truncating towards zero.
\<close>

type_synonym QPointF = "real \<times> real"

definition c_trunc :: "real \<Rightarrow> int" where
  "c_trunc d = (if 0 \<le> d then \<lfloor>d\<rfloor> else \<lceil>d\<rceil>)"

definition qRound :: "real \<Rightarrow> int" where
  "qRound d =
     (if 0 \<le> d then c_trunc (d + 1 / 2)
      else c_trunc (d - real_of_int (c_trunc (d - 1)) + 1 / 2) + c_trunc (d - 1))"

definition toPoint :: "QPointF \<Rightarrow> int \<times> int" where
  "toPoint pos = (qRound (fst pos), qRound (snd pos))"

datatype GridDecl = Grid_uint | Grid_int

definition to_uint32 :: "int \<Rightarrow> int" where
  "to_uint32 v = v mod 2 ^ 32"

definition to_int32 :: "int \<Rightarrow> int" where
  "to_int32 v = (v + 2 ^ 31) mod 2 ^ 32 - 2 ^ 31"

definition c_div :: "int \<Rightarrow> int \<Rightarrow> int" where
  "c_div a b = sgn a * sgn b * (\<bar>a\<bar> div \<bar>b\<bar>)"

definition c_rem :: "int \<Rightarrow> int \<Rightarrow> int" where
  "c_rem a b = sgn a * (\<bar>a\<bar> mod \<bar>b\<bar>)"

datatype scene_error = DivisionByZero | EmptyList | NullPointer

text \<open>
  One axis of \<open>nearingGridPoint\<close>: \<open>g\<close> is the grid spacing of the axis, \<open>x0\<close> the
  coordinate of the point \<open>pos.toPoint()\<close>.
  \<^verbatim>\<open>
    if(x<0) { x -= (this->m_gridWidth / 2) - 1; }
    else    { x += this->m_gridWidth / 2; }
    x -= x % this->m_gridWidth;
  \<close>
  A spacing of 0 makes \<open>x % m_gridWidth\<close> a division by zero.
\<close>

definition snapAxis :: "GridDecl \<Rightarrow> int \<Rightarrow> int \<Rightarrow> scene_error + int" where
  "snapAxis decl g x0 =
     (if g = 0 then Inl DivisionByZero
      else case decl of
        Grid_uint \<Rightarrow>
          (let x1 = (if x0 < 0
                     then to_int32 (to_uint32 x0 - to_uint32 (g div 2 - 1))
                     else to_int32 (to_uint32 x0 + g div 2))
           in Inr (to_int32 (to_uint32 x1 - to_uint32 x1 mod g)))
      | Grid_int \<Rightarrow>
          (let x1 = (if x0 < 0
                     then to_int32 (x0 - (c_div g 2 - 1))
                     else to_int32 (x0 + c_div g 2))
           in Inr (to_int32 (x1 - c_rem x1 g))))"

definition nearingGridPoint ::
  "GridDecl \<Rightarrow> int \<Rightarrow> int \<Rightarrow> QPointF \<Rightarrow> scene_error + QPointF" where
  "nearingGridPoint decl gridWidth gridHeight pos =
     (let point = toPoint pos
      in case snapAxis decl gridWidth (fst point) of
           Inl e \<Rightarrow> Inl e
         | Inr x \<Rightarrow>
             (case snapAxis decl gridHeight (snd point) of
                Inl e \<Rightarrow> Inl e
              | Inr y \<Rightarrow> Inr (real_of_int x, real_of_int y)))"

definition negPoint :: "QPointF \<Rightarrow> QPointF" where
  "negPoint p = (- fst p, - snd p)"

text \<open>
  \<open>r\<close> is the integer multiple of the spacing \<open>g\<close> nearest to \<open>c\<close>, the larger one when two
  are equally near.
\<close>

definition nearestMultiple :: "int \<Rightarrow> int \<Rightarrow> int \<Rightarrow> bool" where
  "nearestMultiple g c r =
     (g dvd r \<and> (\<forall>k. \<bar>r - c\<bar> \<le> \<bar>k * g - c\<bar>)
      \<and> (\<forall>k. \<bar>k * g - c\<bar> = \<bar>r - c\<bar> \<longrightarrow> k * g \<le> r))"

section \<open>The scene: items, ports, undo stack\<close>

text \<open>
  An object (an item, a port, a rubber band) is known by its address, a number. The
  classes \<open>Component\<close>, \<open>Wire\<close>, \<open>Painting\<close> and \<open>Port\<close> are not among the sources; an
  item is modelled by the fields the scene code reads and writes.
\<close>

type_synonym ptr = nat

datatype WireLine = WireLine (lineP1: QPointF) (lineP2: QPointF)

text \<open>\<open>ForeignItem\<close> is a \<open>QGraphicsItem\<close> that is no \<open>QucsItem\<close>: \<open>filterItems\<close> drops it.\<close>

datatype ItemKind = ComponentItem | WireItem | PaintingItem | ForeignItem

text \<open>A rectangle as left, top, width and height, the way \<open>QRectF\<close> stores it.\<close>

datatype QRectF = QRectF (rectX: real) (rectY: real) (rectW: real) (rectH: real)

record QucsItem =
  itemKind :: ItemKind
  onScene :: bool
  itemPos :: QPointF
  isSelected :: bool
  isVisible :: bool
  itemRect :: QRectF
  itemPorts :: "ptr list"
  labelPrefix :: string
  labelSuffix :: string
  wireLines :: "WireLine list"
  storedState :: "WireLine list"

datatype MouseAction =
  Wiring | Deleting | Marking | Rotating | MirroringX | MirroringY
  | ChangingActiveStatus | SettingOnGrid | ZoomingAtPoint | ZoomingOutAtPoint
  | PaintingDrawEvent | InsertingItems | InsertingWireLabel | Normal

datatype wiringStateEnum = NO_WIRE | SINGLETON_WIRE | COMPLEX_WIRE

datatype DragMode = NoDrag | RubberBandDrag

datatype UndoOption = PushUndoCmd | DontPushUndoCmd

datatype Axis = XAxis | YAxis

datatype AngleDirection = Clockwise | AntiClockwise

datatype UndoCommand =
  AddWireCmd ptr
  | WireStateChangeCmd ptr "WireLine list" "WireLine list"
  | ConnectCmd ptr ptr
  | DisconnectCmd ptr ptr
  | MirrorItemsCmd "ptr list" Axis
  | RotateItemsCmd "ptr list" AngleDirection
  | MoveCmd ptr QPointF QPointF
  | RemoveItemsCmd "ptr list"
  | InsertItemCmd ptr QPointF
  | ToggleActiveStatusCmd "ptr list"

text \<open>
  The undo stack is the \<open>QUndoStack\<close> of Qt. The model keeps the calls the scene makes on
  it, oldest first: the macros that are open after a prefix of the calls are the
  \<open>BeginMacro\<close>s of the prefix not yet closed by an \<open>EndMacro\<close>.
\<close>

datatype UndoCall = BeginMacro string | Push UndoCommand | EndMacro

record SchematicView =
  isSchematicView :: bool
  dragMode :: DragMode

record SchematicScene =
  objects :: "(ptr \<times> QucsItem) list"
  connections :: "(ptr \<times> ptr) list"
  m_undoStack :: "UndoCall list"
  freshPtr :: ptr
  sceneViews :: "SchematicView list"
  sceneFocusItem :: "ptr option"
  m_currentMouseAction :: MouseAction
  m_areItemsMoving :: bool
  m_shortcutsBlocked :: bool
  m_insertibles :: "ptr list"
  m_wiringState :: wiringStateEnum
  m_currentWiringWire :: "ptr option"
  m_paintingDrawItem :: "ptr option"
  m_paintingDrawClicks :: int
  m_zoomBand :: "ptr option"

definition andThen :: "scene_error + 'a \<Rightarrow> ('a \<Rightarrow> scene_error + 'b) \<Rightarrow> scene_error + 'b" where
  "andThen r f = (case r of Inl e \<Rightarrow> Inl e | Inr v \<Rightarrow> f v)"

subsection \<open>Objects\<close>

definition lookupItem :: "ptr \<Rightarrow> SchematicScene \<Rightarrow> QucsItem option" where
  "lookupItem p s = map_of (objects s) p"

definition updateItem :: "ptr \<Rightarrow> (QucsItem \<Rightarrow> QucsItem) \<Rightarrow> SchematicScene \<Rightarrow> SchematicScene" where
  "updateItem p f s =
     s\<lparr>objects := map (\<lambda>(q, it). if q = p then (q, f it) else (q, it)) (objects s)\<rparr>"

text \<open>\<open>delete item\<close>: the destructor of a graphics item takes it off its scene.\<close>

definition deleteObject :: "ptr \<Rightarrow> SchematicScene \<Rightarrow> SchematicScene" where
  "deleteObject p s = s\<lparr>objects := filter (\<lambda>(q, it). q \<noteq> p) (objects s)\<rparr>"

definition deletePointer :: "ptr option \<Rightarrow> SchematicScene \<Rightarrow> SchematicScene" where
  "deletePointer q s = (case q of None \<Rightarrow> s | Some p \<Rightarrow> deleteObject p s)"

text \<open>\<open>items()\<close> and \<open>selectedItems()\<close> of the \<open>QGraphicsScene\<close>.\<close>

definition sceneItems :: "SchematicScene \<Rightarrow> ptr list" where
  "sceneItems s = map fst (filter (\<lambda>(p, it). onScene it) (objects s))"

definition selectedItems :: "SchematicScene \<Rightarrow> ptr list" where
  "selectedItems s = map fst (filter (\<lambda>(p, it). onScene it \<and> isSelected it) (objects s))"

definition hasKind :: "ItemKind \<Rightarrow> ptr \<Rightarrow> SchematicScene \<Rightarrow> bool" where
  "hasKind k p s = (case lookupItem p s of None \<Rightarrow> False | Some it \<Rightarrow> itemKind it = k)"

definition isComponent :: "ptr \<Rightarrow> SchematicScene \<Rightarrow> bool" where
  "isComponent = hasKind ComponentItem"

definition isWire :: "ptr \<Rightarrow> SchematicScene \<Rightarrow> bool" where
  "isWire = hasKind WireItem"

text \<open>
  \<open>filterItems<QucsItem>\<close> (a template of a header that is not among the sources): of a
  list of graphics items, those that are \<open>QucsItem\<close>s; \<open>filterItems<Component>\<close>: those
  that are components.
\<close>

definition filterQucsItems :: "SchematicScene \<Rightarrow> ptr list \<Rightarrow> ptr list" where
  "filterQucsItems s ps =
     filter (\<lambda>p. case lookupItem p s of None \<Rightarrow> False | Some it \<Rightarrow> itemKind it \<noteq> ForeignItem) ps"

definition filterComponents :: "SchematicScene \<Rightarrow> ptr list \<Rightarrow> ptr list" where
  "filterComponents s ps = filter (\<lambda>p. isComponent p s) ps"

definition posOf :: "SchematicScene \<Rightarrow> ptr \<Rightarrow> QPointF" where
  "posOf s p = (case lookupItem p s of None \<Rightarrow> (0, 0) | Some it \<Rightarrow> itemPos it)"

definition setPos :: "ptr \<Rightarrow> QPointF \<Rightarrow> SchematicScene \<Rightarrow> SchematicScene" where
  "setPos p pos s = updateItem p (\<lambda>it. it\<lparr>itemPos := pos\<rparr>) s"

definition clearSelection :: "SchematicScene \<Rightarrow> SchematicScene" where
  "clearSelection s =
     s\<lparr>objects :=
         map (\<lambda>(q, it). (q, if onScene it then it\<lparr>isSelected := False\<rparr> else it)) (objects s)\<rparr>"

subsection \<open>Ports and their connections\<close>

text \<open>
  Modelled from the spec: the class \<open>Port\<close> is missing. A port holds a set of
  connections to other ports, a symmetric relation; the scene keeps one pair for each
  connection. \<open>getAnyConnectedPort\<close> gives a connected port or null,
  \<open>hasConnection\<close> whether there is one.
\<close>

definition connectedPorts :: "ptr \<Rightarrow> SchematicScene \<Rightarrow> ptr list" where
  "connectedPorts p s =
     concat (map (\<lambda>(a, b). (if a = p then [b] else []) @ (if b = p then [a] else []))
       (connections s))"

definition getAnyConnectedPort :: "ptr \<Rightarrow> SchematicScene \<Rightarrow> ptr option" where
  "getAnyConnectedPort p s = (case connectedPorts p s of [] \<Rightarrow> None | q # qs \<Rightarrow> Some q)"

definition hasConnection :: "ptr \<Rightarrow> SchematicScene \<Rightarrow> bool" where
  "hasConnection p s = (connectedPorts p s \<noteq> [])"

definition connectTo :: "ptr \<Rightarrow> ptr \<Rightarrow> SchematicScene \<Rightarrow> SchematicScene" where
  "connectTo p q s = s\<lparr>connections := (p, q) # connections s\<rparr>"

definition disconnectFrom :: "ptr \<Rightarrow> ptr \<Rightarrow> SchematicScene \<Rightarrow> SchematicScene" where
  "disconnectFrom p q s =
     s\<lparr>connections :=
         filter (\<lambda>(a, b). \<not> ((a = p \<and> b = q) \<or> (a = q \<and> b = p))) (connections s)\<rparr>"

text \<open>\<open>ports()\<close> of a component or a wire; any other item has none.\<close>

definition portsOf :: "ptr \<Rightarrow> SchematicScene \<Rightarrow> ptr list" where
  "portsOf p s =
     (case lookupItem p s of
        None \<Rightarrow> []
      | Some it \<Rightarrow>
          (if itemKind it = ComponentItem \<or> itemKind it = WireItem then itemPorts it else []))"

subsection \<open>The undo stack\<close>

text \<open>
  Modelled from the spec: the undo commands (\<open>undocommands.h\<close>) are missing.
  \<open>push\<close> runs the command's effect at once and records it. A move sets the item to
  the absolute position it stores; a connect or disconnect changes the relation between
  the two ports; a wire state change sets the wire's segments to the state after; removing
  takes items off the scene, inserting puts one on it at a position. The wire of an
  \<open>AddWireCmd\<close> is on the scene from its construction. The transformation an item is
  drawn with and the active status of a component are not part of the state kept here,
  so mirroring, rotating and toggling change nothing in it.
\<close>

fun redo :: "UndoCommand \<Rightarrow> SchematicScene \<Rightarrow> SchematicScene" where
  "redo (AddWireCmd w) s = updateItem w (\<lambda>it. it\<lparr>onScene := True\<rparr>) s"
| "redo (WireStateChangeCmd w before after) s = updateItem w (\<lambda>it. it\<lparr>wireLines := after\<rparr>) s"
| "redo (ConnectCmd p q) s = connectTo p q s"
| "redo (DisconnectCmd p q) s = disconnectFrom p q s"
| "redo (MirrorItemsCmd ps axis) s = s"
| "redo (RotateItemsCmd ps dir) s = s"
| "redo (MoveCmd p before after) s = setPos p after s"
| "redo (RemoveItemsCmd ps) s =
     s\<lparr>objects :=
         map (\<lambda>(q, it). (q, if q \<in> set ps then it\<lparr>onScene := False\<rparr> else it)) (objects s)\<rparr>"
| "redo (InsertItemCmd p pos) s = updateItem p (\<lambda>it. it\<lparr>onScene := True, itemPos := pos\<rparr>) s"
| "redo (ToggleActiveStatusCmd ps) s = s"

definition beginMacro :: "string \<Rightarrow> SchematicScene \<Rightarrow> SchematicScene" where
  "beginMacro label s = s\<lparr>m_undoStack := m_undoStack s @ [BeginMacro label]\<rparr>"

definition endMacro :: "SchematicScene \<Rightarrow> SchematicScene" where
  "endMacro s = s\<lparr>m_undoStack := m_undoStack s @ [EndMacro]\<rparr>"

definition push :: "UndoCommand \<Rightarrow> SchematicScene \<Rightarrow> SchematicScene" where
  "push cmd s = redo cmd (s\<lparr>m_undoStack := m_undoStack s @ [Push cmd]\<rparr>)"

text \<open>
  The number of macros open after the calls, from \<open>d\<close> open ones (an \<open>endMacro\<close> with no
  macro open does nothing in Qt), and the largest number open at any point on the way.
\<close>

fun openMacros :: "nat \<Rightarrow> UndoCall list \<Rightarrow> nat" where
  "openMacros d [] = d"
| "openMacros d (BeginMacro label # cs) = openMacros (Suc d) cs"
| "openMacros d (EndMacro # cs) = openMacros (d - 1) cs"
| "openMacros d (Push cmd # cs) = openMacros d cs"

fun maxOpenMacros :: "nat \<Rightarrow> UndoCall list \<Rightarrow> nat" where
  "maxOpenMacros d [] = d"
| "maxOpenMacros d (BeginMacro label # cs) = max d (maxOpenMacros (Suc d) cs)"
| "maxOpenMacros d (EndMacro # cs) = max d (maxOpenMacros (d - 1) cs)"
| "maxOpenMacros d (Push cmd # cs) = maxOpenMacros d cs"

subsection \<open>Connecting and disconnecting items\<close>

text \<open>
  Modelled from the spec: \<open>Component::checkAndConnect\<close> and \<open>Wire::checkAndConnect\<close>
  are missing. They connect the ports of the item to the ports and wire ends that
  overlap them, each connection one undoable step when the undo option asks for it. Which
  pairs of ports overlap is geometry of the missing classes: the parameter \<open>cac\<close> gives,
  for a scene and an item, the pairs to connect.
\<close>

type_synonym Overlaps = "SchematicScene \<Rightarrow> ptr \<Rightarrow> (ptr \<times> ptr) list"

definition checkAndConnect ::
  "Overlaps \<Rightarrow> UndoOption \<Rightarrow> ptr \<Rightarrow> SchematicScene \<Rightarrow> SchematicScene" where
  "checkAndConnect cac opt item s =
     foldl (\<lambda>t (p, q). if opt = PushUndoCmd then push (ConnectCmd p q) t else connectTo p q t)
       s (cac s item)"

definition connectItems ::
  "Overlaps \<Rightarrow> ptr list \<Rightarrow> UndoOption \<Rightarrow> SchematicScene \<Rightarrow> SchematicScene" where
  "connectItems cac qItems opt s =
     (let s1 = (if opt = PushUndoCmd then beginMacro ''Connect items'' s else s);
          s2 = foldl (\<lambda>t qItem.
                  if isComponent qItem t then checkAndConnect cac opt qItem t
                  else if isWire qItem t then checkAndConnect cac opt qItem t
                  else t) s1 qItems
      in if opt = PushUndoCmd then endMacro s2 else s2)"

definition disconnectPort :: "UndoOption \<Rightarrow> SchematicScene \<Rightarrow> ptr \<Rightarrow> SchematicScene" where
  "disconnectPort opt t p =
     (case getAnyConnectedPort p t of
        None \<Rightarrow> t
      | Some other \<Rightarrow>
          (if opt = PushUndoCmd then push (DisconnectCmd p other) t
           else disconnectFrom p other t))"

definition disconnectItems :: "ptr list \<Rightarrow> UndoOption \<Rightarrow> SchematicScene \<Rightarrow> SchematicScene" where
  "disconnectItems qItems opt s =
     (let s1 = (if opt = PushUndoCmd then beginMacro ''Disconnect items'' s else s);
          s2 = foldl (\<lambda>t item. foldl (disconnectPort opt) t (portsOf item t)) s1 qItems
      in if opt = PushUndoCmd then endMacro s2 else s2)"

subsection \<open>Mirroring, rotating, deleting\<close>

definition mirrorItems ::
  "Overlaps \<Rightarrow> ptr list \<Rightarrow> UndoOption \<Rightarrow> Axis \<Rightarrow> SchematicScene \<Rightarrow> SchematicScene" where
  "mirrorItems cac items opt axis s =
     (let s1 = (if opt = PushUndoCmd
                then (if axis = XAxis then beginMacro ''Mirror X'' s else beginMacro ''Mirror Y'' s)
                else s);
          s2 = disconnectItems items opt s1;
          s3 = (if opt = PushUndoCmd then push (MirrorItemsCmd items axis) s2
                else redo (MirrorItemsCmd items axis) s2);
          s4 = connectItems cac items opt s3
      in if opt = PushUndoCmd then endMacro s4 else s4)"

definition rotateItems ::
  "Overlaps \<Rightarrow> ptr list \<Rightarrow> AngleDirection \<Rightarrow> UndoOption \<Rightarrow> SchematicScene \<Rightarrow> SchematicScene" where
  "rotateItems cac items dir opt s =
     (let s1 = (if opt = PushUndoCmd
                then beginMacro (if dir = Clockwise then ''Rotate Clockwise''
                                 else ''Rotate Anti-Clockwise'') s
                else s);
          s2 = disconnectItems items opt s1;
          s3 = (if opt = PushUndoCmd then push (RotateItemsCmd items dir) s2
                else redo (RotateItemsCmd items dir) s2);
          s4 = connectItems cac items opt s3
      in if opt = PushUndoCmd then endMacro s4 else s4)"

definition deleteItems :: "ptr list \<Rightarrow> UndoOption \<Rightarrow> SchematicScene \<Rightarrow> SchematicScene" where
  "deleteItems items opt s =
     (if opt = DontPushUndoCmd then foldl (\<lambda>t item. deleteObject item t) s items
      else endMacro (push (RemoveItemsCmd items)
             (disconnectItems items opt (beginMacro ''Delete items'' s))))"

section \<open>Mouse action and reset\<close>

text \<open>\<open>activeView()\<close>: the first view, when there is one and it is a \<open>SchematicView\<close>.\<close>

definition activeView :: "SchematicScene \<Rightarrow> SchematicView option" where
  "activeView s =
     (case sceneViews s of
        [] \<Rightarrow> None
      | v # vs \<Rightarrow> (if isSchematicView v then Some v else None))"

definition blockShortcuts :: "bool \<Rightarrow> SchematicScene \<Rightarrow> SchematicScene" where
  "blockShortcuts block s =
     (if activeView s = None then s
      else if block then (if \<not> m_shortcutsBlocked s then s\<lparr>m_shortcutsBlocked := True\<rparr> else s)
      else (if m_shortcutsBlocked s then s\<lparr>m_shortcutsBlocked := False\<rparr> else s))"

text \<open>
  Modelled from the spec: the methods of \<open>Wire\<close> are missing. A wire has a "stored
  state", a snapshot of its segments; zero-length segments are pruned by
  \<open>removeNullLines\<close>. \<open>movePort1\<close> to the position port 1 already has and
  \<open>updateGeometry\<close> are taken to leave the segments as they are.
\<close>

definition wireShow :: "QucsItem \<Rightarrow> QucsItem" where
  "wireShow it = it\<lparr>isVisible := True\<rparr>"

definition wireSetState :: "WireLine list \<Rightarrow> QucsItem \<Rightarrow> QucsItem" where
  "wireSetState ls it = it\<lparr>wireLines := ls\<rparr>"

definition wireStoreState :: "QucsItem \<Rightarrow> QucsItem" where
  "wireStoreState it = it\<lparr>storedState := wireLines it\<rparr>"

definition removeNullLines :: "QucsItem \<Rightarrow> QucsItem" where
  "removeNullLines it = it\<lparr>wireLines := filter (\<lambda>l. lineP1 l \<noteq> lineP2 l) (wireLines it)\<rparr>"

text \<open>
  The wire \<open>m_currentWiringWire\<close> points to. The \<open>Q_ASSERT\<close> on a null pointer, and the
  use of a pointer whose object is gone, are the error \<open>NullPointer\<close>.
\<close>

definition currentWire :: "SchematicScene \<Rightarrow> scene_error + ptr \<times> QucsItem" where
  "currentWire s =
     (case m_currentWiringWire s of
        None \<Rightarrow> Inl NullPointer
      | Some w \<Rightarrow> (case lookupItem w s of None \<Rightarrow> Inl NullPointer | Some it \<Rightarrow> Inr (w, it)))"

definition resetStateWiring :: "SchematicScene \<Rightarrow> scene_error + SchematicScene" where
  "resetStateWiring s =
     (case m_wiringState s of
        NO_WIRE \<Rightarrow> Inr (s\<lparr>m_wiringState := NO_WIRE\<rparr>)
      | SINGLETON_WIRE \<Rightarrow>
          andThen (currentWire s) (\<lambda>(w, it).
            Inr ((deleteObject w s)\<lparr>m_wiringState := NO_WIRE\<rparr>))
      | COMPLEX_WIRE \<Rightarrow>
          andThen (currentWire s) (\<lambda>(w, it).
            let s1 = updateItem w wireShow s;
                s2 = updateItem w (wireSetState (storedState it)) s1
            in Inr ((deleteObject w s2)\<lparr>m_wiringState := NO_WIRE\<rparr>)))"

definition resetState :: "SchematicScene \<Rightarrow> scene_error + SchematicScene" where
  "resetState s =
     (let s1 = s\<lparr>sceneFocusItem := None\<rparr>;
          s2 = clearSelection s1;
          s3 = (foldl (\<lambda>t p. deleteObject p t) s2 (m_insertibles s2))\<lparr>m_insertibles := []\<rparr>
      in andThen (resetStateWiring s3) (\<lambda>s4.
           let s5 = (deletePointer (m_paintingDrawItem s4) s4)
                      \<lparr>m_paintingDrawItem := None, m_paintingDrawClicks := 0\<rparr>
           in Inr (s5\<lparr>m_zoomBand := None\<rparr>)))"

definition setCurrentMouseAction ::
  "MouseAction \<Rightarrow> SchematicScene \<Rightarrow> scene_error + SchematicScene" where
  "setCurrentMouseAction action s =
     (if m_currentMouseAction s = action then Inr s
      else
        let s1 = (if m_currentMouseAction s = InsertingItems then blockShortcuts False s else s);
            s2 = (if action = InsertingItems then blockShortcuts True s1 else s1);
            s3 = s2\<lparr>m_areItemsMoving := False, m_currentMouseAction := action\<rparr>;
            mode = (if action = Normal then RubberBandDrag else NoDrag);
            s4 = s3\<lparr>sceneViews := map (\<lambda>v. v\<lparr>dragMode := mode\<rparr>) (sceneViews s3)\<rparr>
        in resetState s4)"

section \<open>Wiring\<close>

text \<open>
  What the missing class \<open>Wire\<close> answers while one mouse event is handled: whether the
  wire in progress overlaps itself (\<open>overlap()\<close>), which ports \<open>checkAndConnect\<close>
  connects, and the segments \<open>movePort2\<close> leaves when the free end follows the mouse.
\<close>

record WireAnswers =
  overlapAnswer :: bool
  foundPorts :: "(ptr \<times> ptr) list"
  movedLines :: "WireLine list"

text \<open>
  Modelled from the spec: \<open>new Wire(pos, pos, false, this)\<close> creates a zero-length wire
  at the click point, on the scene and shown before it is committed to the undo stack. It
  has two ports.
\<close>

definition newWire :: "QPointF \<Rightarrow> SchematicScene \<Rightarrow> ptr \<times> SchematicScene" where
  "newWire pos s =
     (let w = freshPtr s;
          it = \<lparr>itemKind = WireItem, onScene = True, itemPos = pos, isSelected = False,
                isVisible = True, itemRect = QRectF 0 0 0 0, itemPorts = [w + 1, w + 2],
                labelPrefix = [], labelSuffix = [], wireLines = [WireLine pos pos],
                storedState = []\<rparr>
      in (w, s\<lparr>objects := objects s @ [(w, it)], freshPtr := w + 3\<rparr>))"

definition wiringEventMouseClickFinalize :: "SchematicScene \<Rightarrow> scene_error + SchematicScene" where
  "wiringEventMouseClickFinalize s =
     andThen (currentWire s) (\<lambda>(w, it).
       let s1 = updateItem w wireShow s;
           s2 = updateItem w removeNullLines s1
       in Inr (s2\<lparr>m_currentWiringWire := None\<rparr>))"

definition wiringEventLeftMouseClickAddSegment ::
  "SchematicScene \<Rightarrow> scene_error + SchematicScene" where
  "wiringEventLeftMouseClickAddSegment s =
     andThen (currentWire s) (\<lambda>(w, it).
       let s1 = updateItem w wireStoreState s
       in (case wireLines it of
             [] \<Rightarrow> Inl EmptyList
           | l # ls \<Rightarrow>
               (let toAppend = WireLine (lineP2 (last (l # ls))) (lineP2 (last (l # ls)))
                in Inr (updateItem w
                     (\<lambda>wi. wi\<lparr>wireLines := wireLines wi @ [toAppend, toAppend]\<rparr>) s1))))"

definition wiringEventLeftMouseClickCommonComplexSingletonWire ::
  "WireAnswers \<Rightarrow> UndoCommand \<Rightarrow> SchematicScene \<Rightarrow> scene_error + SchematicScene" where
  "wiringEventLeftMouseClickCommonComplexSingletonWire ans cmd s =
     andThen (currentWire s) (\<lambda>(w, it).
       let s1 = beginMacro ''Add wiring control point'' s;
           s2 = updateItem w removeNullLines s1;
           s3 = push cmd s2;
           s4 = checkAndConnect (\<lambda>t item. foundPorts ans) PushUndoCmd w s3
       in Inr (endMacro s4))"

text \<open>\<open>m_currentWiringWire->port2()->hasConnection()\<close>.\<close>

definition port2HasConnection :: "SchematicScene \<Rightarrow> scene_error + bool" where
  "port2HasConnection s =
     andThen (currentWire s) (\<lambda>(w, it).
       case itemPorts it of
         [port1, port2] \<Rightarrow> Inr (hasConnection port2 s)
       | _ \<Rightarrow> Inl NullPointer)"

definition finalizeOrContinue :: "SchematicScene \<Rightarrow> scene_error + SchematicScene" where
  "finalizeOrContinue s =
     andThen (port2HasConnection s) (\<lambda>connected.
       if connected
       then andThen (wiringEventMouseClickFinalize s) (\<lambda>t. Inr (t\<lparr>m_wiringState := NO_WIRE\<rparr>))
       else andThen (wiringEventLeftMouseClickAddSegment s)
              (\<lambda>t. Inr (t\<lparr>m_wiringState := COMPLEX_WIRE\<rparr>)))"

definition wiringEventLeftMouseClick ::
  "WireAnswers \<Rightarrow> QPointF \<Rightarrow> SchematicScene \<Rightarrow> scene_error + SchematicScene" where
  "wiringEventLeftMouseClick ans pos s =
     (case m_wiringState s of
        NO_WIRE \<Rightarrow>
          (let (w, s1) = newWire pos s
           in Inr (s1\<lparr>m_currentWiringWire := Some w, m_wiringState := SINGLETON_WIRE\<rparr>))
      | SINGLETON_WIRE \<Rightarrow>
          andThen (currentWire s) (\<lambda>(w, it).
            if overlapAnswer ans then Inr s
            else andThen
                   (wiringEventLeftMouseClickCommonComplexSingletonWire ans (AddWireCmd w) s)
                   finalizeOrContinue)
      | COMPLEX_WIRE \<Rightarrow>
          andThen (currentWire s) (\<lambda>(w, it).
            if overlapAnswer ans then Inr s
            else andThen
                   (wiringEventLeftMouseClickCommonComplexSingletonWire ans
                      (WireStateChangeCmd w (storedState it) (wireLines it)) s)
                   finalizeOrContinue))"

definition finalizeToNoWire :: "SchematicScene \<Rightarrow> scene_error + SchematicScene" where
  "finalizeToNoWire s =
     andThen (wiringEventMouseClickFinalize s) (\<lambda>t. Inr (t\<lparr>m_wiringState := NO_WIRE\<rparr>))"

definition wiringEventRightMouseClick ::
  "WireAnswers \<Rightarrow> SchematicScene \<Rightarrow> scene_error + SchematicScene" where
  "wiringEventRightMouseClick ans s =
     (case m_wiringState s of
        NO_WIRE \<Rightarrow> Inr (s\<lparr>m_wiringState := NO_WIRE\<rparr>)
      | SINGLETON_WIRE \<Rightarrow>
          andThen (currentWire s) (\<lambda>(w, it).
            if overlapAnswer ans then Inr s
            else andThen
                   (wiringEventLeftMouseClickCommonComplexSingletonWire ans (AddWireCmd w) s)
                   finalizeToNoWire)
      | COMPLEX_WIRE \<Rightarrow>
          andThen (currentWire s) (\<lambda>(w, it).
            if overlapAnswer ans then Inr s
            else andThen
                   (wiringEventLeftMouseClickCommonComplexSingletonWire ans
                      (WireStateChangeCmd w (storedState it) (wireLines it)) s)
                   finalizeToNoWire))"

text \<open>
  A mouse event as the wiring handlers read it. \<open>eventPos\<close> is the position
  \<open>smartNearingGridPoint\<close> makes of the event's scene position.
\<close>

datatype EventType =
  GraphicsSceneMousePress | GraphicsSceneMouseMove | GraphicsSceneMouseRelease
  | GraphicsSceneMouseDoubleClick

record MouseActionEvent =
  eventType :: EventType
  leftButton :: bool
  rightButton :: bool
  eventPos :: QPointF

definition wiringEventMouseClick ::
  "WireAnswers \<Rightarrow> MouseActionEvent \<Rightarrow> QPointF \<Rightarrow> SchematicScene \<Rightarrow> scene_error + SchematicScene" where
  "wiringEventMouseClick ans event pos s =
     (if leftButton event then wiringEventLeftMouseClick ans pos s
      else if rightButton event then wiringEventRightMouseClick ans s
      else Inr s)"

definition wiringEventMouseMove ::
  "WireAnswers \<Rightarrow> QPointF \<Rightarrow> SchematicScene \<Rightarrow> scene_error + SchematicScene" where
  "wiringEventMouseMove ans pos s =
     (if m_wiringState s \<noteq> NO_WIRE
      then andThen (currentWire s) (\<lambda>(w, it).
             Inr (updateItem w (wireSetState (movedLines ans)) s))
      else Inr s)"

definition wiringEvent ::
  "WireAnswers \<Rightarrow> MouseActionEvent \<Rightarrow> SchematicScene \<Rightarrow> scene_error + SchematicScene" where
  "wiringEvent ans event s =
     (case eventType event of
        GraphicsSceneMousePress \<Rightarrow> wiringEventMouseClick ans event (eventPos event) s
      | GraphicsSceneMouseMove \<Rightarrow> wiringEventMouseMove ans (eventPos event) s
      | GraphicsSceneMouseRelease \<Rightarrow> Inr s
      | GraphicsSceneMouseDoubleClick \<Rightarrow> Inr s)"

text \<open>Events handled one after the other, each with the answers of the wire class.\<close>

fun wiringEvents ::
  "(WireAnswers \<times> MouseActionEvent) list \<Rightarrow> SchematicScene \<Rightarrow> scene_error + SchematicScene" where
  "wiringEvents [] s = Inr s"
| "wiringEvents ((ans, event) # es) s = andThen (wiringEvent ans event s) (wiringEvents es)"

definition moveTo :: "QPointF \<Rightarrow> MouseActionEvent" where
  "moveTo p = \<lparr>eventType = GraphicsSceneMouseMove, leftButton = False, rightButton = False,
               eventPos = p\<rparr>"

definition leftClickAt :: "QPointF \<Rightarrow> MouseActionEvent" where
  "leftClickAt p = \<lparr>eventType = GraphicsSceneMousePress, leftButton = True, rightButton = False,
                    eventPos = p\<rparr>"

definition rightClickAt :: "QPointF \<Rightarrow> MouseActionEvent" where
  "rightClickAt p = \<lparr>eventType = GraphicsSceneMousePress, leftButton = False, rightButton = True,
                     eventPos = p\<rparr>"

text \<open>A click at a position: the mouse moves there and the button is pressed.\<close>

definition leftClicks :: "(WireAnswers \<times> QPointF) list \<Rightarrow> (WireAnswers \<times> MouseActionEvent) list" where
  "leftClicks cs = concat (map (\<lambda>(a, p). [(a, moveTo p), (a, leftClickAt p)]) cs)"

definition rightClick :: "WireAnswers \<times> QPointF \<Rightarrow> (WireAnswers \<times> MouseActionEvent) list" where
  "rightClick c = [(fst c, moveTo (snd c)), (fst c, rightClickAt (snd c))]"

text \<open>
  The segments committed to the undo stack: the \<open>AddWireCmd\<close> of a wire's first segment
  and the \<open>WireStateChangeCmd\<close> of each further one.
\<close>

fun isWiringCommit :: "UndoCall \<Rightarrow> bool" where
  "isWiringCommit (Push (AddWireCmd w)) = True"
| "isWiringCommit (Push (WireStateChangeCmd w before after)) = True"
| "isWiringCommit c = False"

definition wiringCommits :: "SchematicScene \<Rightarrow> nat" where
  "wiringCommits s = length (filter isWiringCommit (m_undoStack s))"

text \<open>Every object and every connected port has an address \<open>new\<close> has handed out.\<close>

definition allocated :: "SchematicScene \<Rightarrow> bool" where
  "allocated s =
     (list_all (\<lambda>(q, it). q < freshPtr s) (objects s) \<and>
      list_all (\<lambda>(a, b). a < freshPtr s \<and> b < freshPtr s) (connections s))"

section \<open>Distributing and aligning the selection\<close>

text \<open>
  \<open>qSort\<close> with \<open>pointCmpFunction_X\<close>: the items in the order of their abscissas. (The
  order \<open>qSort\<close> leaves items of equal abscissa in is its own; here they keep theirs.)
\<close>

definition sortByX :: "SchematicScene \<Rightarrow> ptr list \<Rightarrow> ptr list" where
  "sortByX s items = sort_key (\<lambda>p. fst (posOf s p)) items"

definition sortByY :: "SchematicScene \<Rightarrow> ptr list \<Rightarrow> ptr list" where
  "sortByY s items = sort_key (\<lambda>p. snd (posOf s p)) items"

definition distributeStepX :: "real \<Rightarrow> real \<times> SchematicScene \<Rightarrow> ptr \<Rightarrow> real \<times> SchematicScene" where
  "distributeStepX dx acc item =
     (let x = fst acc; t = snd acc
      in if isWire item t then (x, t)
         else (x + dx, push (MoveCmd item (posOf t item) (x, snd (posOf t item))) t))"

definition distributeStepY :: "real \<Rightarrow> real \<times> SchematicScene \<Rightarrow> ptr \<Rightarrow> real \<times> SchematicScene" where
  "distributeStepY dy acc item =
     (let y = fst acc; t = snd acc
      in if isWire item t then (y, t)
         else (y + dy, push (MoveCmd item (posOf t item) (fst (posOf t item), y)) t))"

definition distributeElementsHorizontally ::
  "Overlaps \<Rightarrow> ptr list \<Rightarrow> SchematicScene \<Rightarrow> scene_error + SchematicScene" where
  "distributeElementsHorizontally cac items0 s =
     (let s1 = beginMacro ''Distribute horizontally'' s;
          s2 = disconnectItems items0 PushUndoCmd s1;
          items = sortByX s2 items0
      in case items of
           [] \<Rightarrow> Inl EmptyList
         | i # is \<Rightarrow>
             (let x1 = fst (posOf s2 (hd (i # is)));
                  x2 = fst (posOf s2 (last (i # is)));
                  dx = (x2 - x1) / (real (length items) - 1);
                  s3 = snd (foldl (distributeStepX dx) (x1, s2) items);
                  s4 = connectItems cac items PushUndoCmd s3
              in Inr (endMacro s4)))"

definition distributeElementsVertically ::
  "Overlaps \<Rightarrow> ptr list \<Rightarrow> SchematicScene \<Rightarrow> scene_error + SchematicScene" where
  "distributeElementsVertically cac items0 s =
     (let s1 = beginMacro ''Distribute vertically'' s;
          s2 = disconnectItems items0 PushUndoCmd s1;
          items = sortByY s2 items0
      in case items of
           [] \<Rightarrow> Inl EmptyList
         | i # is \<Rightarrow>
             (let y1 = snd (posOf s2 (hd (i # is)));
                  y2 = snd (posOf s2 (last (i # is)));
                  dy = (y2 - y1) / (real (length items) - 1);
                  s3 = snd (foldl (distributeStepY dy) (y1, s2) items);
                  s4 = connectItems cac items PushUndoCmd s3
              in Inr (endMacro s4)))"

datatype Orientation = Horizontal | Vertical

definition distributeElements ::
  "Overlaps \<Rightarrow> Orientation \<Rightarrow> SchematicScene \<Rightarrow> scene_error + bool \<times> SchematicScene" where
  "distributeElements cac orientation s =
     (let gItems = selectedItems s;
          items = filterQucsItems s gItems
      in if length items < 2 then Inr (False, s)
         else andThen
                (if orientation = Horizontal then distributeElementsHorizontally cac items s
                 else distributeElementsVertically cac items s)
                (\<lambda>t. Inr (True, t)))"

text \<open>
  \<open>sceneBoundingRect()\<close> of an item: its rectangle at its position (the transformation is
  not part of the state). \<open>unitedRect\<close> is \<open>QRectF::operator|\<close> of Qt: a null rectangle
  (no width and no height) gives way to the other one.
\<close>

definition sceneBoundingRect :: "SchematicScene \<Rightarrow> ptr \<Rightarrow> QRectF" where
  "sceneBoundingRect s p =
     (case lookupItem p s of
        None \<Rightarrow> QRectF 0 0 0 0
      | Some it \<Rightarrow>
          QRectF (rectX (itemRect it) + fst (itemPos it)) (rectY (itemRect it) + snd (itemPos it))
            (rectW (itemRect it)) (rectH (itemRect it)))"

definition rectLeft :: "QRectF \<Rightarrow> real" where "rectLeft r = rectX r"
definition rectTop :: "QRectF \<Rightarrow> real" where "rectTop r = rectY r"
definition rectRight :: "QRectF \<Rightarrow> real" where "rectRight r = rectX r + rectW r"
definition rectBottom :: "QRectF \<Rightarrow> real" where "rectBottom r = rectY r + rectH r"
definition rectCenter :: "QRectF \<Rightarrow> QPointF" where
  "rectCenter r = (rectX r + rectW r / 2, rectY r + rectH r / 2)"

definition unitedRect :: "QRectF \<Rightarrow> QRectF \<Rightarrow> QRectF" where
  "unitedRect a b =
     (if rectW a = 0 \<and> rectH a = 0 then b
      else if rectW b = 0 \<and> rectH b = 0 then a
      else
        let l = min (min (rectLeft a) (rectRight a)) (min (rectLeft b) (rectRight b));
            r = max (max (rectLeft a) (rectRight a)) (max (rectLeft b) (rectRight b));
            t = min (min (rectTop a) (rectBottom a)) (min (rectTop b) (rectBottom b));
            bo = max (max (rectTop a) (rectBottom a)) (max (rectTop b) (rectBottom b))
        in QRectF l t (r - l) (bo - t))"

datatype Alignment =
  AlignLeft | AlignRight | AlignTop | AlignBottom | AlignHCenter | AlignVCenter | AlignCenter

fun Alignment2QString :: "Alignment \<Rightarrow> string" where
  "Alignment2QString AlignLeft = ''Align left''"
| "Alignment2QString AlignRight = ''Align right''"
| "Alignment2QString AlignTop = ''Align top''"
| "Alignment2QString AlignBottom = ''Align bottom''"
| "Alignment2QString AlignHCenter = ''Centers horizontally''"
| "Alignment2QString AlignVCenter = ''Centers vertically''"
| "Alignment2QString AlignCenter = ''Center both vertically and horizontally''"

fun alignDelta :: "Alignment \<Rightarrow> QRectF \<Rightarrow> QRectF \<Rightarrow> QPointF" where
  "alignDelta AlignLeft rect itemR = (rectLeft rect - rectLeft itemR, 0)"
| "alignDelta AlignRight rect itemR = (rectRight rect - rectRight itemR, 0)"
| "alignDelta AlignTop rect itemR = (0, rectTop rect - rectTop itemR)"
| "alignDelta AlignBottom rect itemR = (0, rectBottom rect - rectBottom itemR)"
| "alignDelta AlignHCenter rect itemR = (fst (rectCenter rect) - fst (rectCenter itemR), 0)"
| "alignDelta AlignVCenter rect itemR = (0, snd (rectCenter rect) - snd (rectCenter itemR))"
| "alignDelta AlignCenter rect itemR =
     (fst (rectCenter rect) - fst (rectCenter itemR),
      snd (rectCenter rect) - snd (rectCenter itemR))"

definition alignStep :: "Alignment \<Rightarrow> QRectF \<Rightarrow> SchematicScene \<Rightarrow> ptr \<Rightarrow> SchematicScene" where
  "alignStep alignment rect t item =
     (if isWire item t then t
      else
        let delta = alignDelta alignment rect (sceneBoundingRect t item);
            ipos = posOf t item
        in push (MoveCmd item ipos (fst ipos + fst delta, snd ipos + snd delta)) t)"

definition alignElements ::
  "Overlaps \<Rightarrow> Alignment \<Rightarrow> SchematicScene \<Rightarrow> bool \<times> SchematicScene" where
  "alignElements cac alignment s =
     (let gItems = selectedItems s;
          items = filterQucsItems s gItems
      in case items of
           [] \<Rightarrow> (False, s)
         | [i] \<Rightarrow> (False, s)
         | i # j # js \<Rightarrow>
             (let s1 = beginMacro (Alignment2QString alignment) s;
                  s2 = disconnectItems items PushUndoCmd s1;
                  rect = foldl (\<lambda>r it. unitedRect r (sceneBoundingRect s2 it))
                           (sceneBoundingRect s2 i) (j # js);
                  s3 = foldl (alignStep alignment rect) s2 items;
                  s4 = connectItems cac items PushUndoCmd s3
              in (True, endMacro s4)))"

section \<open>Placing an item\<close>

text \<open>
  \<open>QString::toInt\<close> on a label suffix: an optional sign and decimal digits, within the
  range of an \<open>int\<close>; anything else is not a number (\<open>ok\<close> is false). \<open>numberText\<close> is the
  text \<open>QString::arg\<close> writes for an \<open>int\<close>.
\<close>

definition digitValue :: "char \<Rightarrow> nat option" where
  "digitValue c =
     (let n = of_char c :: nat in if 48 \<le> n \<and> n \<le> 57 then Some (n - 48) else None)"

fun digitsValue :: "nat \<Rightarrow> string \<Rightarrow> nat option" where
  "digitsValue acc [] = Some acc"
| "digitsValue acc (c # cs) =
     (case digitValue c of None \<Rightarrow> None | Some d \<Rightarrow> digitsValue (10 * acc + d) cs)"

definition inIntRange :: "int \<Rightarrow> int option" where
  "inIntRange v = (if - (2 ^ 31) \<le> v \<and> v < 2 ^ 31 then Some v else None)"

fun toInt :: "string \<Rightarrow> int option" where
  "toInt [] = None"
| "toInt (c # cs) =
     (if c = CHR ''-'' then
        (case cs of [] \<Rightarrow> None
         | d # ds \<Rightarrow> (case digitsValue 0 cs of None \<Rightarrow> None | Some n \<Rightarrow> inIntRange (- int n)))
      else if c = CHR ''+'' then
        (case cs of [] \<Rightarrow> None
         | d # ds \<Rightarrow> (case digitsValue 0 cs of None \<Rightarrow> None | Some n \<Rightarrow> inIntRange (int n)))
      else (case digitsValue 0 (c # cs) of None \<Rightarrow> None | Some n \<Rightarrow> inIntRange (int n)))"

definition digitChar :: "nat \<Rightarrow> char" where
  "digitChar d = ''0123456789'' ! d"

fun natText :: "nat \<Rightarrow> string" where
  "natText n = (if n < 10 then [digitChar n] else natText (n div 10) @ [digitChar (n mod 10)])"

definition numberText :: "int \<Rightarrow> string" where
  "numberText v = (if v < 0 then CHR ''-'' # natText (nat (- v)) else natText (nat v))"

text \<open>
  \<open>componentLabelSuffix\<close>: the loop over \<open>items()\<close>, with \<open>_max\<close> starting at 1.
  \<open>suffix + 1\<close> is \<open>int\<close> arithmetic.
\<close>

definition labelSuffixStep :: "string \<Rightarrow> SchematicScene \<Rightarrow> int \<Rightarrow> ptr \<Rightarrow> int" where
  "labelSuffixStep prefix s m item =
     (case lookupItem item s of
        None \<Rightarrow> m
      | Some c \<Rightarrow>
          (if itemKind c = ComponentItem \<and> labelPrefix c = prefix
           then (case toInt (labelSuffix c) of
                   None \<Rightarrow> m
                 | Some suffix \<Rightarrow> max m (to_int32 (suffix + 1)))
           else m))"

definition componentLabelSuffix :: "string \<Rightarrow> SchematicScene \<Rightarrow> int" where
  "componentLabelSuffix prefix s = foldl (labelSuffixStep prefix s) 1 (sceneItems s)"

text \<open>
  Modelled from the spec: \<open>Component::setLabel\<close> is missing; a label is the prefix
  followed by the numeric suffix, so setting the label \<open>prefix + number\<close> leaves the
  prefix and makes the number the suffix.
\<close>

definition placeItem ::
  "Overlaps \<Rightarrow> ptr \<Rightarrow> QPointF \<Rightarrow> UndoOption \<Rightarrow> SchematicScene \<Rightarrow> scene_error + SchematicScene" where
  "placeItem cac item pos opt s =
     (case lookupItem item s of
        None \<Rightarrow> Inl NullPointer
      | Some it0 \<Rightarrow>
          (let s1 = (if onScene it0 then updateItem item (\<lambda>it. it\<lparr>onScene := False\<rparr>) s else s);
               s2 = (if isComponent item s1
                     then updateItem item
                            (\<lambda>it. it\<lparr>labelSuffix :=
                                 numberText (componentLabelSuffix (labelPrefix it0) s1)\<rparr>) s1
                     else s1)
           in if opt = DontPushUndoCmd
              then (let s3 = setPos item pos (updateItem item (\<lambda>it. it\<lparr>onScene := True\<rparr>) s2)
                    in Inr (if isComponent item s3 then checkAndConnect cac opt item s3
                            else if isWire item s3 then checkAndConnect cac opt item s3
                            else s3))
              else (let s3 = beginMacro ''Use Paint Tool'' s2;
                        s4 = push (InsertItemCmd item pos) s3;
                        s5 = (if isComponent item s4 then checkAndConnect cac opt item s4
                              else if isWire item s4 then checkAndConnect cac opt item s4
                              else s4)
                    in Inr (endMacro s5))))"

section \<open>Pasting\<close>

text \<open>
  \<open>paste\<close> reads the clipboard text through a \<open>Qucs::XmlReader\<close>, a
  \<open>QXmlStreamReader\<close>. The model starts from the tokens \<open>readNext\<close> yields for the text,
  in order: a start element with its name and attributes, an end element, any other
  token, or \<open>InvalidToken\<close> where the text is not well-formed (the reader then has its
  error and is at its end).
\<close>

datatype XmlToken =
  StartElement string "(string \<times> string) list"
  | EndElement
  | OtherToken
  | InvalidToken

text \<open>
  The first loop: read on to the start element \<open>qucs\<close>. The result is the token the
  reader stands on (none when the tokens ran out) and the tokens not yet read.
\<close>

fun findRoot :: "XmlToken list \<Rightarrow> XmlToken option \<times> XmlToken list" where
  "findRoot [] = (None, [])"
| "findRoot (StartElement name attrs # ts) =
     (if name = ''qucs'' then (Some (StartElement name attrs), ts) else findRoot ts)"
| "findRoot (InvalidToken # ts) = (Some InvalidToken, ts)"
| "findRoot (EndElement # ts) = findRoot ts"
| "findRoot (OtherToken # ts) = findRoot ts"

text \<open>\<open>attributes().value(name)\<close>: the empty string when there is no such attribute.\<close>

definition attributeValue :: "(string \<times> string) list \<Rightarrow> string \<Rightarrow> string" where
  "attributeValue attrs name = (case map_of attrs name of None \<Rightarrow> [] | Some v \<Rightarrow> v)"

text \<open>
  The loaders \<open>Component::loadComponentData\<close>, \<open>Wire::loadWireData\<close> and
  \<open>Painting::loadPainting\<close> are missing: the parameter \<open>load\<close> gives, for the element's
  name, its attributes and the tokens that follow, the item read (or null) and how many
  of these tokens the loader reads.
\<close>

type_synonym Loader =
  "string \<Rightarrow> (string \<times> string) list \<Rightarrow> XmlToken list \<Rightarrow> QucsItem option \<times> nat"

text \<open>The second loop: the items read, up to the first end element.\<close>

function readItems :: "Loader \<Rightarrow> XmlToken list \<Rightarrow> QucsItem list" where
  "readItems load [] = []"
| "readItems load (EndElement # ts) = []"
| "readItems load (InvalidToken # ts) = []"
| "readItems load (OtherToken # ts) = readItems load ts"
| "readItems load (StartElement name attrs # ts) =
     (if name = ''component'' \<or> name = ''wire'' \<or> name = ''painting''
      then (case fst (load name attrs ts) of None \<Rightarrow> [] | Some it \<Rightarrow> [it])
           @ readItems load (drop (snd (load name attrs ts)) ts)
      else readItems load ts)"
  by pat_completeness auto
termination
  by (relation "measure (\<lambda>(load, ts). length ts)") auto

text \<open>
  What the view and the cursor give \<open>beginInsertingItems\<close>: whether the cursor is on the
  viewport, and the snapped offset from the centre of the items to the cursor.
\<close>

record InsertEnv =
  cursorOnScene :: bool
  insertDelta :: QPointF

definition prepareInsertible :: "InsertEnv \<Rightarrow> SchematicScene \<Rightarrow> ptr \<Rightarrow> SchematicScene" where
  "prepareInsertible env t item =
     updateItem item (\<lambda>it. it\<lparr>isSelected := True, isVisible := cursorOnScene env\<rparr>) t"

definition moveBy :: "QPointF \<Rightarrow> SchematicScene \<Rightarrow> ptr \<Rightarrow> SchematicScene" where
  "moveBy delta t item =
     updateItem item
       (\<lambda>it. it\<lparr>itemPos := (fst (itemPos it) + fst delta, snd (itemPos it) + snd delta)\<rparr>) t"

definition beginInsertingItems ::
  "InsertEnv \<Rightarrow> ptr list \<Rightarrow> SchematicScene \<Rightarrow> scene_error + SchematicScene" where
  "beginInsertingItems env items s =
     (if activeView s = None then Inr s
      else andThen (resetState s) (\<lambda>s1.
             let s2 = s1\<lparr>m_insertibles := items\<rparr>;
                 s3 = foldl (prepareInsertible env) s2 (m_insertibles s2)
             in Inr (foldl (moveBy (insertDelta env)) s3 (m_insertibles s3))))"

text \<open>The objects the loaders create, each at a new address.\<close>

fun allocateItems :: "QucsItem list \<Rightarrow> SchematicScene \<Rightarrow> ptr list \<times> SchematicScene" where
  "allocateItems [] s = ([], s)"
| "allocateItems (it # its) s =
     (let p = freshPtr s;
          r = allocateItems its (s\<lparr>objects := objects s @ [(p, it)], freshPtr := p + 1\<rparr>)
      in (p # fst r, snd r))"

text \<open>\<open>Qucs::checkVersion\<close> is missing: the parameter \<open>checkVersion\<close>.\<close>

definition paste ::
  "(string \<Rightarrow> bool) \<Rightarrow> Loader \<Rightarrow> InsertEnv \<Rightarrow> XmlToken list \<Rightarrow> SchematicScene
     \<Rightarrow> scene_error + SchematicScene" where
  "paste checkVersion load env tokens s =
     (case findRoot tokens of
        (Some (StartElement name attrs), ts) \<Rightarrow>
          (if \<not> checkVersion (attributeValue attrs ''version'') then Inr s
           else (let r = allocateItems (readItems load ts) s
                 in beginInsertingItems env (fst r) (snd r)))
      | (other, ts) \<Rightarrow> Inr s)"

section \<open>Example scenes\<close>

text \<open>The scene as \<open>init\<close> leaves it, with no view attached.\<close>

definition initialScene :: SchematicScene where
  "initialScene =
     \<lparr>objects = [], connections = [], m_undoStack = [], freshPtr = 0, sceneViews = [],
      sceneFocusItem = None, m_currentMouseAction = Normal, m_areItemsMoving = False,
      m_shortcutsBlocked = False, m_insertibles = [], m_wiringState = NO_WIRE,
      m_currentWiringWire = None, m_paintingDrawItem = None, m_paintingDrawClicks = 0,
      m_zoomBand = None\<rparr>"

definition newItem :: "ItemKind \<Rightarrow> QPointF \<Rightarrow> QucsItem" where
  "newItem k pos =
     \<lparr>itemKind = k, onScene = True, itemPos = pos, isSelected = False, isVisible = True,
      itemRect = QRectF (-10) (-10) 20 20, itemPorts = [], labelPrefix = [], labelSuffix = [],
      wireLines = [], storedState = []\<rparr>"

definition newComponent :: "string \<Rightarrow> string \<Rightarrow> QPointF \<Rightarrow> QucsItem" where
  "newComponent prefix suffix pos =
     (newItem ComponentItem pos)\<lparr>labelPrefix := prefix, labelSuffix := suffix\<rparr>"

text \<open>No ports overlap: \<open>checkAndConnect\<close> connects nothing.\<close>

definition noOverlaps :: Overlaps where
  "noOverlaps s item = []"

text \<open>
  The answers of a wire in free space whose segments are \<open>ls\<close> after the move, and of
  one that overlaps itself.
\<close>

definition freeAnswers :: "WireLine list \<Rightarrow> WireAnswers" where
  "freeAnswers ls = \<lparr>overlapAnswer = False, foundPorts = [], movedLines = ls\<rparr>"

definition overlapping :: "WireLine list \<Rightarrow> WireAnswers" where
  "overlapping ls = \<lparr>overlapAnswer = True, foundPorts = [], movedLines = ls\<rparr>"

text \<open>
  In wiring mode after a first click at the origin and a move to \<open>(10, 0)\<close>; and after a
  second click there and a move to \<open>(10, 5)\<close>.
\<close>

definition singletonScene :: SchematicScene where
  "singletonScene =
     initialScene
       \<lparr>objects := [(0, (newItem WireItem (0, 0))
                          \<lparr>itemRect := QRectF 0 0 0 0, itemPorts := [1, 2],
                           wireLines := [WireLine (0, 0) (10, 0)]\<rparr>)],
        freshPtr := 3, m_currentMouseAction := Wiring, m_wiringState := SINGLETON_WIRE,
        m_currentWiringWire := Some 0\<rparr>"

definition complexScene :: SchematicScene where
  "complexScene =
     initialScene
       \<lparr>objects := [(0, (newItem WireItem (0, 0))
                          \<lparr>itemRect := QRectF 0 0 0 0, itemPorts := [1, 2],
                           wireLines := [WireLine (0, 0) (10, 0), WireLine (10, 0) (10, 0),
                                         WireLine (10, 0) (10, 5)],
                           storedState := [WireLine (0, 0) (10, 0)]\<rparr>)],
        m_undoStack := [BeginMacro ''Add wiring control point'', Push (AddWireCmd 0), EndMacro],
        freshPtr := 3, m_currentMouseAction := Wiring, m_wiringState := COMPLEX_WIRE,
        m_currentWiringWire := Some 0\<rparr>"

text \<open>What a run of wiring events leaves: the state, the wire in progress, the number of
  committed segments and the items on the scene.\<close>

definition wiringOutcome ::
  "scene_error + SchematicScene \<Rightarrow> scene_error + wiringStateEnum \<times> ptr option \<times> nat \<times> ptr list" where
  "wiringOutcome r =
     (case r of
        Inl e \<Rightarrow> Inl e
      | Inr s \<Rightarrow> Inr (m_wiringState s, m_currentWiringWire s, wiringCommits s, sceneItems s))"

text \<open>A resistor connected to a capacitor: port 2 of the one to port 4 of the other.\<close>

definition connectedScene :: SchematicScene where
  "connectedScene =
     initialScene
       \<lparr>objects := [(0, (newComponent ''R'' ''1'' (0, 0))\<lparr>itemPorts := [1, 2]\<rparr>),
                    (3, (newComponent ''C'' ''1'' (20, 0))\<lparr>itemPorts := [4, 5]\<rparr>)],
        connections := [(2, 4)], freshPtr := 6\<rparr>"

fun isPush :: "UndoCall \<Rightarrow> bool" where
  "isPush (Push c) = True"
| "isPush c = False"

text \<open>\<open>t\<close> comes from \<open>s\<close> by pushes only.\<close>

definition pushesAfter :: "SchematicScene \<Rightarrow> SchematicScene \<Rightarrow> bool" where
  "pushesAfter s t = (\<exists>ps. m_undoStack t = m_undoStack s @ ps \<and> list_all isPush ps)"

text \<open>
  \<open>checkAndConnect\<close> connects the port \<open>p\<close> at this event. The answers at a left click
  that lets the wire go on: the wire does not overlap itself, \<open>checkAndConnect\<close> does not
  connect the wire's second port, the free end, and the segments the move has left are
  not all null.
\<close>

definition connectsPort :: "ptr \<Rightarrow> WireAnswers \<Rightarrow> bool" where
  "connectsPort p a = list_ex (\<lambda>(x, y). x = p \<or> y = p) (foundPorts a)"

definition continuesWire :: "ptr \<Rightarrow> WireAnswers \<Rightarrow> bool" where
  "continuesWire port2 a =
     (\<not> overlapAnswer a \<and> \<not> connectsPort port2 a \<and>
      list_ex (\<lambda>l. lineP1 l \<noteq> lineP2 l) (movedLines a))"

text \<open>
  The wire \<open>w\<close> is in progress: \<open>m_currentWiringWire\<close> points to it, it is on the scene,
  and its second port \<open>port2\<close>, the free end, has no connection.
\<close>

definition wireInProgress :: "ptr \<Rightarrow> ptr \<Rightarrow> SchematicScene \<Rightarrow> bool" where
  "wireInProgress w port2 s =
     (m_currentWiringWire s = Some w \<and>
      (case lookupItem w s of
         None \<Rightarrow> False
       | Some it \<Rightarrow> onScene it \<and>
           (case itemPorts it of [a, b] \<Rightarrow> b = port2 \<and> \<not> hasConnection b s | _ \<Rightarrow> False)))"

text \<open>
  Three selected items at the abscissas 90, 0 and 30: all components; and with a wire as
  the one at 30.
\<close>

definition threeComponents :: SchematicScene where
  "threeComponents =
     initialScene
       \<lparr>objects := [(0, (newComponent ''R'' ''1'' (90, 0))\<lparr>isSelected := True\<rparr>),
                    (1, (newComponent ''R'' ''2'' (0, 0))\<lparr>isSelected := True\<rparr>),
                    (2, (newComponent ''R'' ''3'' (30, 5))\<lparr>isSelected := True\<rparr>)],
        freshPtr := 3\<rparr>"

definition wireAmongComponents :: SchematicScene where
  "wireAmongComponents =
     initialScene
       \<lparr>objects := [(0, (newComponent ''R'' ''1'' (90, 0))\<lparr>isSelected := True\<rparr>),
                    (1, (newComponent ''R'' ''2'' (0, 0))\<lparr>isSelected := True\<rparr>),
                    (2, (newItem WireItem (30, 0))\<lparr>isSelected := True\<rparr>)],
        freshPtr := 3\<rparr>"

text \<open>The answer of \<open>distributeElements\<close> and where it leaves the items \<open>ps\<close>.\<close>

definition positionsAfter ::
  "ptr list \<Rightarrow> scene_error + bool \<times> SchematicScene \<Rightarrow> scene_error + bool \<times> QPointF list" where
  "positionsAfter ps r =
     (case r of Inl e \<Rightarrow> Inl e | Inr (ok, t) \<Rightarrow> Inr (ok, map (posOf t) ps))"

subsection \<open>Label suffixes on the scene\<close>

text \<open>
  The numeric suffixes \<open>componentLabelSuffix\<close> meets on its walk: those of the components
  on the scene whose label prefix is \<open>prefix\<close> and whose suffix \<open>toInt\<close> reads. The label
  suffix a component has after \<open>placeItem\<close>. Two scenes: resistors R1 and R2 with a
  third resistor not yet placed, and a resistor whose suffix reads as \<open>-5\<close>.
\<close>

definition suffixOf :: "string \<Rightarrow> SchematicScene \<Rightarrow> ptr \<Rightarrow> int list" where
  "suffixOf prefix s item =
     (case lookupItem item s of
        None \<Rightarrow> []
      | Some c \<Rightarrow>
          (if itemKind c = ComponentItem \<and> labelPrefix c = prefix
           then (case toInt (labelSuffix c) of None \<Rightarrow> [] | Some suffix \<Rightarrow> [suffix])
           else []))"

definition sameLabelSuffixes :: "string \<Rightarrow> SchematicScene \<Rightarrow> int list" where
  "sameLabelSuffixes prefix s = concat (map (suffixOf prefix s) (sceneItems s))"

definition labelSuffixAfterPlacing ::
  "Overlaps \<Rightarrow> ptr \<Rightarrow> QPointF \<Rightarrow> UndoOption \<Rightarrow> SchematicScene \<Rightarrow> string option" where
  "labelSuffixAfterPlacing cac item pos opt s =
     (case placeItem cac item pos opt s of
        Inl e \<Rightarrow> None
      | Inr s' \<Rightarrow> map_option labelSuffix (lookupItem item s'))"

definition twoResistors :: SchematicScene where
  "twoResistors =
     initialScene
       \<lparr>objects := [(0, newComponent ''R'' ''1'' (0, 0)),
                    (1, newComponent ''R'' ''2'' (30, 0)),
                    (2, (newComponent ''R'' [] (0, 0))\<lparr>onScene := False\<rparr>)],
        freshPtr := 3\<rparr>"

definition negativeSuffix :: SchematicScene where
  "negativeSuffix =
     initialScene
       \<lparr>objects := [(0, newComponent ''R'' ''-5'' (0, 0)),
                    (1, (newComponent ''R'' [] (0, 0))\<lparr>onScene := False\<rparr>)],
        freshPtr := 2\<rparr>"

subsection \<open>Clipboard payloads\<close>

text \<open>
  Whether a token is the start of the document root \<open>paste\<close> looks for. A version check
  that accepts \<open>0.1.0\<close> only, a loader that reads the one end token of its element and
  gives a resistor, a cursor on the viewport, and a scene shown in one view.
\<close>

fun isQucsStart :: "XmlToken \<Rightarrow> bool" where
  "isQucsStart (StartElement name attrs) = (name = ''qucs'')"
| "isQucsStart t = False"

definition knownVersion :: "string \<Rightarrow> bool" where
  "knownVersion v = (v = ''0.1.0'')"

definition resistorLoader :: Loader where
  "resistorLoader name attrs ts = (Some (newComponent ''R'' ''1'' (0, 0)), 1)"

definition cursorOnView :: InsertEnv where
  "cursorOnView = \<lparr>cursorOnScene = True, insertDelta = (0, 0)\<rparr>"

definition viewedScene :: SchematicScene where
  "viewedScene =
     initialScene\<lparr>sceneViews := [\<lparr>isSchematicView = True, dragMode = RubberBandDrag\<rparr>]\<rparr>"

text \<open>
  Three payloads: a component followed by an element of no known kind, a document whose
  root is not \<open>qucs\<close>, and a document of another version.
\<close>

definition unknownKindPayload :: "XmlToken list" where
  "unknownKindPayload =
     [StartElement ''qucs'' [(''version'', ''0.1.0'')],
      StartElement ''component'' [], EndElement,
      StartElement ''gadget'' [], EndElement,
      EndElement]"

definition wrongRootPayload :: "XmlToken list" where
  "wrongRootPayload =
     [StartElement ''svg'' [(''version'', ''0.1.0'')],
      StartElement ''component'' [], EndElement,
      EndElement]"

definition otherVersionPayload :: "XmlToken list" where
  "otherVersionPayload =
     [StartElement ''qucs'' [(''version'', ''9.9'')],
      StartElement ''component'' [], EndElement,
      EndElement]"

text \<open>The insertion list and the items of the scene after a paste.\<close>

definition insertionAfter :: "scene_error + SchematicScene \<Rightarrow> (ptr list \<times> ptr list) option" where
  "insertionAfter r =
     (case r of Inl e \<Rightarrow> None | Inr s \<Rightarrow> Some (m_insertibles s, sceneItems s))"

section \<open>Facts about grid snapping\<close>

lemma to_int32_id: "- (2 ^ 31) \<le> v \<Longrightarrow> v < 2 ^ 31 \<Longrightarrow> to_int32 v = v"
  by (simp add: to_int32_def)

lemma to_uint32_id: "0 \<le> v \<Longrightarrow> v < 2 ^ 32 \<Longrightarrow> to_uint32 v = v"
  by (simp add: to_uint32_def)

text \<open>
  On a coordinate that is not negative the two readings of the declaration agree: the
  half step is added and the remainder removed, with no wrap-around while
  \<open>x + g / 2\<close> fits an \<open>int\<close>.
\<close>

lemma snapAxis_nonneg:
  assumes g: "0 < g" "g < 2 ^ 31" and x: "0 \<le> x" "x + g div 2 < 2 ^ 31"
  shows "snapAxis decl g x = Inr (((x + g div 2) div g) * g)"
proof -
  let ?x1 = "x + g div 2"
  have r1: "0 \<le> ?x1" "?x1 < 2 ^ 31" using g x by auto
  have m: "0 \<le> ?x1 mod g" "?x1 mod g \<le> ?x1"
    using g r1 by (auto simp: zmod_le_nonneg_dividend)
  have e: "?x1 - ?x1 mod g = (?x1 div g) * g" by (simp add: minus_mod_eq_div_mult)
  have r2: "0 \<le> ?x1 - ?x1 mod g" "?x1 - ?x1 mod g < 2 ^ 31" using m r1 by auto
  have i1: "to_int32 ?x1 = ?x1" using r1 by (intro to_int32_id) auto
  have i2: "to_int32 (?x1 - ?x1 mod g) = ?x1 - ?x1 mod g"
    using r2 by (intro to_int32_id) auto
  show ?thesis
  proof (cases decl)
    case Grid_uint
    have "to_uint32 x = x" using x g by (intro to_uint32_id) auto
    moreover have "to_uint32 ?x1 = ?x1" using r1 by (intro to_uint32_id) auto
    ultimately show ?thesis using Grid_uint g x e i1 i2 by (simp add: snapAxis_def Let_def)
  next
    case Grid_int
    have "c_div g 2 = g div 2" using g by (simp add: c_div_def)
    moreover have "c_rem ?x1 g = ?x1 mod g"
      using r1 g by (cases "?x1 = 0") (auto simp: c_rem_def)
    ultimately show ?thesis using Grid_int g x e i1 i2 by (simp add: snapAxis_def Let_def)
  qed
qed

lemma half_step_bounds:
  fixes g :: int
  shows "2 * (g div 2) \<le> g" and "g \<le> 2 * (g div 2) + 1"
  by presburger+

lemma round_half_up_close:
  fixes g x r :: int
  assumes g: "0 < g" and r: "r = ((x + g div 2) div g) * g"
  shows "\<bar>r - x\<bar> \<le> g div 2"
proof -
  let ?y = "x + g div 2"
  have d: "?y = r + ?y mod g" using r by (simp add: div_mult_mod_eq)
  have m: "0 \<le> ?y mod g" "?y mod g < g" using g by auto
  show ?thesis using d m half_step_bounds [of g] by linarith
qed

lemma round_half_up_nearest:
  fixes g x r k :: int
  assumes g: "0 < g" and r: "r = ((x + g div 2) div g) * g"
  shows "\<bar>r - x\<bar> \<le> \<bar>k * g - x\<bar>"
proof (rule ccontr)
  assume "\<not> ?thesis"
  then have lt: "\<bar>k * g - x\<bar> < \<bar>r - x\<bar>" by simp
  define q where "q = (x + g div 2) div g"
  have rq: "r = q * g" using r q_def by simp
  have "\<bar>k * g - r\<bar> < g"
    using lt round_half_up_close [OF g r] half_step_bounds [of g] by linarith
  then have "\<bar>(k - q) * g\<bar> < g" by (simp add: rq algebra_simps)
  then have "\<bar>k - q\<bar> * g < 1 * g" using g by (simp add: abs_mult)
  then have "\<bar>k - q\<bar> < 1" using g by (simp only: mult_less_cancel_right_pos)
  then have "k = q" by linarith
  then show False using lt rq by simp
qed

lemma round_half_up_tie:
  fixes g x r k :: int
  assumes g: "0 < g" and r: "r = ((x + g div 2) div g) * g"
    and eq: "\<bar>k * g - x\<bar> = \<bar>r - x\<bar>"
  shows "k * g \<le> r"
proof (rule ccontr)
  assume n: "\<not> k * g \<le> r"
  let ?y = "x + g div 2"
  define q where "q = ?y div g"
  have rq: "r = q * g" using r q_def by simp
  have d: "?y = r + ?y mod g" using r by (simp add: div_mult_mod_eq)
  have m: "0 \<le> ?y mod g" "?y mod g < g" using g by auto
  have "q < k" using n rq g by (simp add: mult_less_cancel_right_pos)
  then have "q + 1 \<le> k" by simp
  then have "(q + 1) * g \<le> k * g" using g by (simp only: mult_right_mono less_imp_le)
  then have "r + g \<le> k * g" using rq by (simp add: algebra_simps)
  then show False using eq d m half_step_bounds [of g] by linarith
qed


text \<open>\<open>qRound\<close> gives the nearest integer, a half going upwards.\<close>

lemma qRound_floor: "qRound d = \<lfloor>d + 1 / 2\<rfloor>"
proof (cases "0 \<le> d")
  case True
  then show ?thesis by (simp add: qRound_def c_trunc_def)
next
  case False
  define t where "t = \<lceil>d - 1\<rceil>"
  have t: "d - 1 \<le> real_of_int t" "real_of_int t < d"
    unfolding t_def by linarith+
  have p: "0 \<le> d - real_of_int t + 1 / 2" using t by linarith
  have "qRound d = \<lfloor>d - real_of_int t + 1 / 2\<rfloor> + t"
    using False p by (simp add: qRound_def c_trunc_def t_def)
  also have "\<dots> = \<lfloor>d + 1 / 2\<rfloor>" by linarith
  finally show ?thesis .
qed

lemma qRound_values:
  "qRound 0 = 0" "qRound (- 1) = - 1" "qRound (- 2) = - 2" "qRound 5 = 5" "qRound (- 5) = - 5"
  "qRound (- 7) = - 7" "qRound (- 16) = - 16" "qRound (23 / 5) = 5" "qRound (66 / 5) = 13" "qRound (- (73 / 10)) = - 7"
  by (simp_all add: qRound_floor)

text \<open>
  A negative coordinate with the grid size a signed \<open>int\<close>: \<open>g / 2 - 1\<close> is subtracted and
  the remainder, which has the sign of the dividend, removed.
\<close>

lemma snapAxis_int_neg:
  assumes g: "0 < g" "g < 2 ^ 31" and c: "c < 0" "- (2 ^ 31) \<le> c - (g div 2 - 1)"
  shows "snapAxis Grid_int g c = Inr (- (((g div 2 - 1 - c) div g) * g))"
proof -
  let ?n = "g div 2 - 1 - c"
  have h: "0 \<le> g div 2" using g by simp
  have n: "0 \<le> ?n" "?n \<le> 2 ^ 31" using c h by linarith+
  have cd: "c_div g 2 = g div 2" using g by (simp add: c_div_def)
  have i1: "to_int32 (- ?n) = - ?n" using n by (intro to_int32_id) auto
  have m: "0 \<le> ?n mod g" "?n mod g \<le> ?n"
    using g n by (auto simp: zmod_le_nonneg_dividend)
  have cr: "c_rem (- ?n) g = - (?n mod g)"
    using g n by (cases "?n = 0") (auto simp: c_rem_def)
  have e: "- ?n + ?n mod g = - ((?n div g) * g)"
    by (simp add: minus_mod_eq_div_mult [symmetric])
  have i2: "to_int32 (- ?n + ?n mod g) = - ?n + ?n mod g"
    using m n by (intro to_int32_id) auto
  have x1: "c - (g div 2 - 1) = - ?n" by simp
  have "snapAxis Grid_int g c
          = Inr (to_int32 (to_int32 (c - (c_div g 2 - 1)) - c_rem (to_int32 (c - (c_div g 2 - 1))) g))"
    using g c by (simp add: snapAxis_def Let_def)
  also have "to_int32 (c - (c_div g 2 - 1)) = - ?n" unfolding cd x1 by (rule i1)
  also have "- ?n - c_rem (- ?n) g = - ?n + ?n mod g" unfolding cr by simp
  also have "to_int32 (- ?n + ?n mod g) = - ((?n div g) * g)" unfolding i2 by (rule e)
  finally show ?thesis .
qed

lemma snapAxis_int_neg_interval:
  fixes g c r :: int
  assumes g: "0 < g" and r: "r = - (((g div 2 - 1 - c) div g) * g)"
  shows "g dvd r" and "- (g div 2) < r - c" and "r - c \<le> g - g div 2"
proof -
  let ?n = "g div 2 - 1 - c"
  have d: "?n = - r + ?n mod g" using r by (simp add: div_mult_mod_eq)
  have m: "0 \<le> ?n mod g" "?n mod g < g" using g by auto
  show "g dvd r" using r by simp
  show "- (g div 2) < r - c" using d m by linarith
  show "r - c \<le> g - g div 2" using d m by linarith
qed

lemma close_multiple_nearest:
  fixes g c r k :: int
  assumes g: "0 < g" and dv: "g dvd r" and cl: "\<bar>r - c\<bar> \<le> g div 2"
  shows "\<bar>r - c\<bar> \<le> \<bar>k * g - c\<bar>"
proof (rule ccontr)
  assume "\<not> ?thesis"
  then have lt: "\<bar>k * g - c\<bar> < \<bar>r - c\<bar>" by simp
  from dv obtain q where rq: "r = q * g" by (auto simp: dvd_def mult.commute)
  have "\<bar>k * g - r\<bar> < g"
    using lt cl half_step_bounds [of g] by linarith
  then have "\<bar>(k - q) * g\<bar> < g" by (simp add: rq algebra_simps)
  then have "\<bar>k - q\<bar> * g < 1 * g" using g by (simp add: abs_mult)
  then have "\<bar>k - q\<bar> < 1" using g by (simp only: mult_less_cancel_right_pos)
  then have "k = q" by linarith
  then show False using lt rq by simp
qed

lemma close_multiple_tie:
  fixes g c r k :: int
  assumes g: "0 < g" and dv: "g dvd r"
    and lo: "- (g div 2) < r - c" and hi: "r - c \<le> g div 2"
    and eq: "\<bar>k * g - c\<bar> = \<bar>r - c\<bar>"
  shows "k * g \<le> r"
proof (rule ccontr)
  assume n: "\<not> k * g \<le> r"
  from dv obtain q where rq: "r = q * g" by (auto simp: dvd_def mult.commute)
  have "q < k" using n rq g by (simp add: mult_less_cancel_right_pos)
  then have "q + 1 \<le> k" by simp
  then have "(q + 1) * g \<le> k * g" using g by (simp only: mult_right_mono less_imp_le)
  then have "r + g \<le> k * g" using rq by (simp add: algebra_simps)
  then show False using eq lo hi half_step_bounds [of g] by linarith
qed

lemma even_spacing_tie:
  fixes g c :: int
  assumes g: "0 < g" "even g" and z: "(c + g div 2) mod g = 0"
  shows "c mod g = g div 2"
proof -
  from z obtain k where k: "c + g div 2 = g * k" by (auto simp: mod_eq_0_iff_dvd dvd_def)
  have gg: "g = 2 * (g div 2)" using g(2) by simp
  have m: "0 \<le> g div 2" "g div 2 < g" using g by auto
  have "c = g div 2 + (k - 1) * g" using k gg by (simp add: algebra_simps)
  then have "c mod g = (g div 2 + (k - 1) * g) mod g" by simp
  also have "\<dots> = (g div 2) mod g" by (simp only: mod_mult_self1)
  also have "\<dots> = g div 2" using m by (simp add: mod_pos_pos_trivial)
  finally show ?thesis .
qed

lemma div_pred:
  fixes g n :: int
  assumes g: "0 < g" and nz: "n mod g \<noteq> 0"
  shows "(n - 1) div g = n div g"
proof -
  have m: "0 \<le> n mod g" "n mod g < g" using g by auto
  have "n - 1 = g * (n div g) + (n mod g - 1)" by (simp add: algebra_simps)
  moreover have "0 \<le> n mod g - 1" "n mod g - 1 < g" using m nz by linarith+
  ultimately show ?thesis by (rule int_div_pos_eq)
qed

lemma snapAxis_int_mirror:
  assumes g: "0 < g" "g < 2 ^ 31" "even g"
    and c: "0 < c" "c + g div 2 < 2 ^ 31" and nt: "c mod g \<noteq> g div 2"
  shows "snapAxis Grid_int g (- c) = Inr (- (((c + g div 2) div g) * g))"
proof -
  have nz: "(c + g div 2) mod g \<noteq> 0"
  proof
    assume "(c + g div 2) mod g = 0"
    then have "c mod g = g div 2" using g(1,3) by (rule even_spacing_tie [rotated 2])
    then show False using nt by simp
  qed
  have "snapAxis Grid_int g (- c) = Inr (- (((g div 2 - 1 - (- c)) div g) * g))"
    using g c by (intro snapAxis_int_neg) auto
  also have "g div 2 - 1 - (- c) = c + g div 2 - 1" by simp
  also have "(c + g div 2 - 1) div g = (c + g div 2) div g" by (rule div_pred [OF g(1) nz])
  finally show ?thesis .
qed

lemmas axis_defs = snapAxis_def to_int32_def to_uint32_def c_div_def c_rem_def

lemma snapAxis_values:
  "snapAxis decl 10 0 = Inr 0" "snapAxis decl 1 0 = Inr 0" "snapAxis decl 10 5 = Inr 10"
  "snapAxis decl 1 (- 2) = Inr (- 1)" "snapAxis decl 1 (- 1) = Inr 0"
  "snapAxis Grid_uint 10 (- 7) = Inr (- 16)" "snapAxis Grid_uint 10 (- 16) = Inr (- 26)"
  "snapAxis Grid_uint 10 (- 5) = Inr (- 16)" "snapAxis Grid_int 10 (- 5) = Inr 0"
  "snapAxis Grid_int 10 13 = Inr 10" "snapAxis Grid_int 10 (- 7) = Inr (- 10)"
  by (cases decl; simp add: axis_defs)+

lemmas snap_eval = nearingGridPoint_def toPoint_def Let_def qRound_values snapAxis_values

text \<open>
  With \<open>m_gridWidth\<close> an \<open>unsigned int\<close>, the remainder of a negative \<open>x\<close> is taken of
  \<open>x + 2^32\<close>: on the default grid of 10 the point \<open>(-7, 0)\<close> goes to \<open>(-16, 0)\<close>, which
  goes to \<open>(-26, 0)\<close>.
\<close>

lemma nearingGridPoint_uint_default_grid:
  "nearingGridPoint Grid_uint 10 10 (-7, 0) = Inr (-16, 0) \<and>
   nearingGridPoint Grid_uint 10 10 (-16, 0) = Inr (-26, 0)"
  by (simp add: snap_eval)

text \<open>
  The multiple is the one nearest to the rounded coordinate: 4.6 is rounded to 5, and 5
  goes to 10 on a grid of 10, where the multiple nearest to 4.6 is 0.
\<close>

lemma nearingGridPoint_rounds_first:
  "nearingGridPoint decl 10 10 (46 / 10, 0) = Inr (10, 0)"
  by (simp add: snap_eval)

text \<open>
  C5. The claim: grid snapping is idempotent, \<open>snap (snap p) = snap p\<close> for every point and
  every grid size. The code at a grid of 1 by 1 and the point \<open>(-2, 0)\<close>: the negative
  branch subtracts \<open>1 / 2 - 1\<close>, that is adds 1, so the point goes to \<open>(-1, 0)\<close>, and
  \<open>(-1, 0)\<close> goes to \<open>(0, 0)\<close>, whichever way the grid size is declared.
\<close>

theorem nearingGridPoint_grid1_not_idempotent:
  "nearingGridPoint decl 1 1 (-2, 0) = Inr (-1, 0) \<and>
   nearingGridPoint decl 1 1 (-1, 0) = Inr (0, 0)"
  by (simp add: snap_eval)

text \<open>
  C6, as stated: the rounding is symmetric across the origin, \<open>snap (-p) = - snap p\<close> for
  every point. At the grid of 10 by 10 and \<open>p = (5, 0)\<close> it is not, for either
  declaration of the grid size.
\<close>

theorem nearingGridPoint_symmetry_counterexample:
  "nearingGridPoint Grid_uint 10 10 (negPoint (5, 0))
     \<noteq> map_sum id negPoint (nearingGridPoint Grid_uint 10 10 (5, 0)) \<and>
   nearingGridPoint Grid_int 10 10 (negPoint (5, 0))
     \<noteq> map_sum id negPoint (nearingGridPoint Grid_int 10 10 (5, 0))"
  by (simp add: snap_eval negPoint_def)

text \<open>
  C6, amended: each coordinate of the point is first rounded to the nearest integer, a
  half upwards, and the two axes are then snapped independently of each other. A rounded
  coordinate \<open>c\<close> that is not negative goes to the integer multiple of the spacing nearest
  to \<open>c\<close>, the larger one when two are equally near. For a negative \<open>c\<close>, with the grid
  size a signed \<open>int\<close>, the code subtracts \<open>g / 2 - 1\<close> and removes the remainder: the
  result \<open>r\<close> is a multiple of \<open>g\<close> with \<open>- (g / 2) < r - c \<le> g - g / 2\<close>, which for an even
  spacing is again the nearest multiple, the larger one of two equally near. So with a
  signed grid size and an even spacing, \<open>snap (- c) = - snap c\<close> for every \<open>c > 0\<close> that is
  not halfway between two multiples. (Spacings are positive, the rounded coordinates are
  within the range of \<open>int\<close>, and no sum leaves it.)
\<close>

theorem nearingGridPoint_rounds_then_snaps:
  assumes gw: "0 < gw" "gw < 2 ^ 31" and gh: "0 < gh" "gh < 2 ^ 31"
    and cx: "- (2 ^ 31) < \<lfloor>x + 1 / 2\<rfloor>" "\<lfloor>x + 1 / 2\<rfloor> < 2 ^ 31"
    and cy: "- (2 ^ 31) < \<lfloor>y + 1 / 2\<rfloor>" "\<lfloor>y + 1 / 2\<rfloor> < 2 ^ 31"
  shows "\<exists>rx ry.
           nearingGridPoint decl gw gh (x, y) = Inr (real_of_int rx, real_of_int ry)
         \<and> snapAxis decl gw \<lfloor>x + 1 / 2\<rfloor> = Inr rx \<and> snapAxis decl gh \<lfloor>y + 1 / 2\<rfloor> = Inr ry
         \<and> (\<forall>(g, c, r) \<in> {(gw, \<lfloor>x + 1 / 2\<rfloor>, rx), (gh, \<lfloor>y + 1 / 2\<rfloor>, ry)}.
              (0 \<le> c \<and> c + g div 2 < 2 ^ 31 \<longrightarrow> nearestMultiple g c r)
            \<and> (decl = Grid_int \<and> c < 0 \<and> - (2 ^ 31) \<le> c - (g div 2 - 1) \<longrightarrow>
                 g dvd r \<and> - (g div 2) < r - c \<and> r - c \<le> g - g div 2
                 \<and> (even g \<longrightarrow> nearestMultiple g c r))
            \<and> (decl = Grid_int \<and> even g \<and> 0 < c \<and> c + g div 2 < 2 ^ 31
                 \<and> c mod g \<noteq> g div 2 \<longrightarrow> snapAxis decl g (- c) = Inr (- r)))"
proof -
  let ?P = "\<lambda>g c r.
              (0 \<le> c \<and> c + g div 2 < 2 ^ 31 \<longrightarrow> nearestMultiple g c r)
            \<and> (decl = Grid_int \<and> c < 0 \<and> - (2 ^ 31) \<le> c - (g div 2 - 1) \<longrightarrow>
                 g dvd r \<and> - (g div 2) < r - c \<and> r - c \<le> g - g div 2
                 \<and> (even g \<longrightarrow> nearestMultiple g c r))
            \<and> (decl = Grid_int \<and> even g \<and> 0 < c \<and> c + g div 2 < 2 ^ 31
                 \<and> c mod g \<noteq> g div 2 \<longrightarrow> snapAxis decl g (- c) = Inr (- r))"
  have ax: "\<exists>r. snapAxis decl g c = Inr r \<and> ?P g c r" if g: "0 < g" "g < 2 ^ 31" for g c
  proof -
    obtain r where r: "snapAxis decl g c = Inr r"
      using g by (cases decl) (simp_all add: snapAxis_def Let_def)
    have p: "nearestMultiple g c r" if c: "0 \<le> c" "c + g div 2 < 2 ^ 31"
    proof -
      have e: "r = ((c + g div 2) div g) * g"
        using snapAxis_nonneg [OF g c, of decl] r by simp
      show ?thesis
        unfolding nearestMultiple_def
        using round_half_up_nearest [OF g(1) e] round_half_up_tie [OF g(1) e] e by simp
    qed
    have n: "g dvd r \<and> - (g div 2) < r - c \<and> r - c \<le> g - g div 2
                 \<and> (even g \<longrightarrow> nearestMultiple g c r)"
      if d: "decl = Grid_int" and c: "c < 0" "- (2 ^ 31) \<le> c - (g div 2 - 1)"
    proof -
      have e: "r = - (((g div 2 - 1 - c) div g) * g)"
        using snapAxis_int_neg [OF g c] r d by simp
      note i = snapAxis_int_neg_interval [OF g(1) e]
      have "nearestMultiple g c r" if ev: "even g"
      proof -
        have gg: "g = 2 * (g div 2)" using ev by simp
        have hi: "r - c \<le> g div 2" using i(3) gg by linarith
        then have cl: "\<bar>r - c\<bar> \<le> g div 2" using i(2) by linarith
        show ?thesis
          unfolding nearestMultiple_def
          using close_multiple_nearest [OF g(1) i(1) cl]
            close_multiple_tie [OF g(1) i(1) i(2) hi] i(1) by blast
      qed
      then show ?thesis using i by blast
    qed
    have m: "snapAxis decl g (- c) = Inr (- r)"
      if d: "decl = Grid_int" and ev: "even g" and c: "0 < c" "c + g div 2 < 2 ^ 31"
        and nt: "c mod g \<noteq> g div 2"
    proof -
      have c0: "0 \<le> c" using c by simp
      have e: "r = ((c + g div 2) div g) * g"
        using snapAxis_nonneg [OF g c0 c(2), of decl] r by simp
      show ?thesis
        using snapAxis_int_mirror [OF g ev c nt] d e by simp
    qed
    show ?thesis using r p n m by blast
  qed
  from ax [OF gw] obtain rx where
    rx: "snapAxis decl gw \<lfloor>x + 1 / 2\<rfloor> = Inr rx" and px: "?P gw \<lfloor>x + 1 / 2\<rfloor> rx"
    by blast
  from ax [OF gh] obtain ry where
    ry: "snapAxis decl gh \<lfloor>y + 1 / 2\<rfloor> = Inr ry" and py: "?P gh \<lfloor>y + 1 / 2\<rfloor> ry"
    by blast
  have v: "nearingGridPoint decl gw gh (x, y) = Inr (real_of_int rx, real_of_int ry)"
    by (simp add: nearingGridPoint_def toPoint_def qRound_floor rx ry)
  have "\<forall>(g, c, r) \<in> {(gw, \<lfloor>x + 1 / 2\<rfloor>, rx), (gh, \<lfloor>y + 1 / 2\<rfloor>, ry)}. ?P g c r"
    using px py by simp
  with v rx ry show ?thesis by blast
qed


theorem nearingGridPoint_rounds_then_snaps_witness:
  "nearingGridPoint Grid_int 10 10 (132 / 10, - 73 / 10) = Inr (10, - 10)
   \<and> nearestMultiple 10 13 10 \<and> nearestMultiple 10 (- 7) (- 10)
   \<and> snapAxis Grid_int 10 (- 13) = Inr (- 10)"
proof -
  have fl: "\<lfloor>132 / 10 + 1 / 2 :: real\<rfloor> = 13" "\<lfloor>- 73 / 10 + 1 / 2 :: real\<rfloor> = - 7"
    by simp_all
  have v: "snapAxis Grid_int 10 13 = Inr 10" "snapAxis Grid_int 10 (- 7) = Inr (- 10)"
    by (simp_all add: snapAxis_values)
  from nearingGridPoint_rounds_then_snaps
         [where gw = 10 and gh = 10 and decl = Grid_int and x = "132 / 10" and y = "- 73 / 10"]
  obtain rx ry where
    r: "nearingGridPoint Grid_int 10 10 (132 / 10, - 73 / 10) = Inr (real_of_int rx, real_of_int ry)"
      "snapAxis Grid_int 10 13 = Inr rx" "snapAxis Grid_int 10 (- 7) = Inr ry"
    and f: "nearestMultiple 10 13 rx" "nearestMultiple 10 (- 7) ry"
      "snapAxis Grid_int 10 (- 13) = Inr (- rx)"
    unfolding fl by auto
  have "rx = 10" "ry = - 10" using r(2,3) v by simp_all
  then show ?thesis using r(1) f by simp
qed

section \<open>Frame facts\<close>

lemma undoStack_updateItem [simp]: "m_undoStack (updateItem p f s) = m_undoStack s"
  by (simp add: updateItem_def)

lemma undoStack_setPos [simp]: "m_undoStack (setPos p q s) = m_undoStack s"
  by (simp add: setPos_def)

lemma undoStack_connectTo [simp]: "m_undoStack (connectTo p q s) = m_undoStack s"
  by (simp add: connectTo_def)

lemma undoStack_disconnectFrom [simp]: "m_undoStack (disconnectFrom p q s) = m_undoStack s"
  by (simp add: disconnectFrom_def)

lemma undoStack_deleteObject [simp]: "m_undoStack (deleteObject p s) = m_undoStack s"
  by (simp add: deleteObject_def)

lemma undoStack_redo [simp]: "m_undoStack (redo cmd s) = m_undoStack s"
  by (cases cmd) simp_all

lemma undoStack_push [simp]: "m_undoStack (push cmd s) = m_undoStack s @ [Push cmd]"
  by (simp add: push_def)

lemma undoStack_beginMacro [simp]:
  "m_undoStack (beginMacro l s) = m_undoStack s @ [BeginMacro l]"
  by (simp add: beginMacro_def)

lemma undoStack_endMacro [simp]: "m_undoStack (endMacro s) = m_undoStack s @ [EndMacro]"
  by (simp add: endMacro_def)

lemma same_foldl:
  assumes "\<And>t x. g (f t x) = g t"
  shows "g (foldl f s xs) = g s"
  by (induction xs arbitrary: s) (simp_all add: assms)

section \<open>Setting the mouse action again\<close>

text \<open>
  C10. Setting the mouse action that is already current changes nothing at all: the
  scene returned is the scene given, so the selection, the focus, the list of insertibles,
  the wiring state and its wire, the painting item, the zoom band, the shortcut blocking
  and the drag mode of the views are as they were.
\<close>

theorem setCurrentMouseAction_same_action:
  assumes "m_currentMouseAction s = action"
  shows "setCurrentMouseAction action s = Inr s"
  using assms by (simp add: setCurrentMouseAction_def)

text \<open>
  In wiring mode with a wire in progress: setting \<open>Wiring\<close> again keeps the wire, setting
  \<open>Normal\<close> resets and leaves no item on the scene.
\<close>

theorem setCurrentMouseAction_same_action_witness:
  "setCurrentMouseAction Wiring singletonScene = Inr singletonScene \<and>
   map_sum id sceneItems (setCurrentMouseAction Wiring singletonScene) = Inr [0] \<and>
   map_sum id sceneItems (setCurrentMouseAction Normal singletonScene) = Inr []"
proof -
  have a: "m_currentMouseAction singletonScene = Wiring"
    by (simp add: singletonScene_def initialScene_def)
  have b: "sceneItems singletonScene = [0]"
    by (simp add: singletonScene_def initialScene_def sceneItems_def newItem_def)
  have c: "map_sum id sceneItems (setCurrentMouseAction Normal singletonScene) = Inr []"
    by (simp add: setCurrentMouseAction_def resetState_def resetStateWiring_def
        currentWire_def andThen_def lookupItem_def deleteObject_def deletePointer_def
        clearSelection_def sceneItems_def singletonScene_def initialScene_def newItem_def
        Let_def)
  show ?thesis using setCurrentMouseAction_same_action [OF a] b c by simp
qed

section \<open>Clicks on a wire that overlaps itself\<close>

text \<open>
  C3. In the wiring states \<open>SINGLETON_WIRE\<close> and \<open>COMPLEX_WIRE\<close>, a left or a right click
  while the wire in progress overlaps itself is rejected without a trace: the handler
  returns the scene it was given, so the wiring state, the wire's segments and the undo
  stack are unchanged and no command and no macro is recorded.
\<close>

theorem wiring_click_on_overlap_rejected:
  assumes "m_wiringState s = SINGLETON_WIRE \<or> m_wiringState s = COMPLEX_WIRE"
    and "currentWire s = Inr (w, it)"
    and "overlapAnswer ans"
  shows "wiringEventLeftMouseClick ans pos s = Inr s
       \<and> wiringEventRightMouseClick ans s = Inr s
       \<and> wiringEvent ans (leftClickAt pos) s = Inr s
       \<and> wiringEvent ans (rightClickAt pos) s = Inr s"
  using assms
  by (auto simp: wiringEventLeftMouseClick_def wiringEventRightMouseClick_def andThen_def
      wiringEvent_def wiringEventMouseClick_def leftClickAt_def rightClickAt_def)

theorem wiring_click_on_overlap_rejected_witness:
  "wiringEvent (overlapping [WireLine (0, 0) (10, 0)]) (leftClickAt (10, 0)) singletonScene
     = Inr singletonScene \<and>
   wiringEvent (overlapping [WireLine (0, 0) (10, 0)]) (rightClickAt (10, 0)) singletonScene
     = Inr singletonScene \<and>
   m_undoStack singletonScene = []"
proof -
  have a: "m_wiringState singletonScene = SINGLETON_WIRE
         \<or> m_wiringState singletonScene = COMPLEX_WIRE"
    by (simp add: singletonScene_def initialScene_def)
  have b: "currentWire singletonScene =
     Inr (0, (newItem WireItem (0, 0))
                \<lparr>itemRect := QRectF 0 0 0 0, itemPorts := [1, 2],
                 wireLines := [WireLine (0, 0) (10, 0)]\<rparr>)"
    by (simp add: currentWire_def lookupItem_def singletonScene_def initialScene_def)
  have c: "overlapAnswer (overlapping [WireLine (0, 0) (10, 0)])"
    by (simp add: overlapping_def)
  have d: "m_undoStack singletonScene = []"
    by (simp add: singletonScene_def initialScene_def)
  show ?thesis using wiring_click_on_overlap_rejected [OF a b c, of "(10, 0)"] d by simp
qed

section \<open>Resetting the wiring\<close>

lemma lookupItem_deleteObject [simp]: "lookupItem w (deleteObject w s) = None"
  by (auto simp: lookupItem_def deleteObject_def map_of_eq_None_iff)

lemma sceneItems_deleteObject [simp]: "w \<notin> set (sceneItems (deleteObject w s))"
  by (auto simp: sceneItems_def deleteObject_def)

text \<open>
  C2. The claim: a reset in \<open>SINGLETON_WIRE\<close> discards the wire; in \<open>COMPLEX_WIRE\<close> it
  restores the wire to its stored state and leaves the committed wire on the scene; both
  end in \<open>NO_WIRE\<close>. The code, in \<open>COMPLEX_WIRE\<close>: after \<open>show\<close>, \<open>setState\<close> and
  \<open>movePort1\<close> it runs \<open>delete this->m_currentWiringWire\<close>, as in \<open>SINGLETON_WIRE\<close>. In
  both states the wire is gone from the scene afterwards, the undo stack is as it was (in
  \<open>COMPLEX_WIRE\<close> it still holds the wire's \<open>AddWireCmd\<close>), and \<open>m_currentWiringWire\<close>
  keeps the address.
\<close>

theorem resetStateWiring_deletes_wire:
  assumes "m_wiringState s = SINGLETON_WIRE \<or> m_wiringState s = COMPLEX_WIRE"
    and "currentWire s = Inr (w, it)"
  shows "\<exists>s'. resetStateWiring s = Inr s' \<and> m_wiringState s' = NO_WIRE
           \<and> lookupItem w s' = None \<and> w \<notin> set (sceneItems s')
           \<and> m_undoStack s' = m_undoStack s
           \<and> m_currentWiringWire s' = m_currentWiringWire s"
proof -
  have frame: "lookupItem w (t\<lparr>m_wiringState := NO_WIRE\<rparr>) = lookupItem w t"
    "sceneItems (t\<lparr>m_wiringState := NO_WIRE\<rparr>) = sceneItems t" for t
    by (simp_all add: lookupItem_def sceneItems_def)
  have ptr: "m_currentWiringWire (deleteObject w t) = m_currentWiringWire t"
    "m_currentWiringWire (updateItem w f t) = m_currentWiringWire t" for t f
    by (simp_all add: deleteObject_def updateItem_def)
  show ?thesis
    using assms by (auto simp: resetStateWiring_def andThen_def Let_def frame ptr)
qed

theorem resetStateWiring_deletes_wire_witness:
  "sceneItems complexScene = [0] \<and>
   map_sum id sceneItems (resetStateWiring complexScene) = Inr [] \<and>
   map_sum id m_undoStack (resetStateWiring complexScene)
     = Inr [BeginMacro ''Add wiring control point'', Push (AddWireCmd 0), EndMacro]"
proof -
  have a: "m_wiringState complexScene = SINGLETON_WIRE
         \<or> m_wiringState complexScene = COMPLEX_WIRE"
    by (simp add: complexScene_def initialScene_def)
  have b: "currentWire complexScene =
     Inr (0, (newItem WireItem (0, 0))
                \<lparr>itemRect := QRectF 0 0 0 0, itemPorts := [1, 2],
                 wireLines := [WireLine (0, 0) (10, 0), WireLine (10, 0) (10, 0),
                               WireLine (10, 0) (10, 5)],
                 storedState := [WireLine (0, 0) (10, 0)]\<rparr>)"
    by (simp add: currentWire_def lookupItem_def complexScene_def initialScene_def)
  have c: "sceneItems complexScene = [0]"
    by (simp add: complexScene_def initialScene_def sceneItems_def newItem_def)
  have d: "m_undoStack complexScene
     = [BeginMacro ''Add wiring control point'', Push (AddWireCmd 0), EndMacro]"
    by (simp add: complexScene_def initialScene_def)
  from resetStateWiring_deletes_wire [OF a b]
  obtain s' where s': "resetStateWiring complexScene = Inr s'" "0 \<notin> set (sceneItems s')"
    "m_undoStack s' = m_undoStack complexScene"
    by blast
  have "map_sum id sceneItems (resetStateWiring complexScene) = Inr []"
    by (simp add: resetStateWiring_def currentWire_def andThen_def lookupItem_def
        deleteObject_def updateItem_def sceneItems_def complexScene_def initialScene_def
        newItem_def Let_def wireShow_def wireSetState_def)
  then show ?thesis using s' c d by simp
qed

section \<open>Undo macros\<close>

lemma openMacros_append: "openMacros d (xs @ ys) = openMacros (openMacros d xs) ys"
  by (induction d xs rule: openMacros.induct) simp_all

lemma maxOpenMacros_ge: "d \<le> maxOpenMacros d xs"
  by (induction d xs rule: maxOpenMacros.induct) (auto simp: max_def)

lemma maxOpenMacros_append:
  "maxOpenMacros d (xs @ ys) = max (maxOpenMacros d xs) (maxOpenMacros (openMacros d xs) ys)"
proof (induction d xs rule: maxOpenMacros.induct)
  case (1 d)
  then show ?case using maxOpenMacros_ge [of d ys] by (simp add: max_def)
qed (simp_all add: max.assoc)

lemma openMacros_pushes: "list_all isPush xs \<Longrightarrow> openMacros d xs = d"
  by (induction d xs rule: openMacros.induct) simp_all

lemma maxOpenMacros_pushes: "list_all isPush xs \<Longrightarrow> maxOpenMacros d xs = d"
  by (induction d xs rule: maxOpenMacros.induct) simp_all

lemma pushesAfter_refl [simp]: "pushesAfter s s"
  by (simp add: pushesAfter_def)

lemma pushesAfter_trans: "pushesAfter s t \<Longrightarrow> pushesAfter t u \<Longrightarrow> pushesAfter s u"
  by (auto simp: pushesAfter_def)

lemma pushesAfter_foldl:
  assumes "\<And>t x. pushesAfter t (f t x)"
  shows "pushesAfter s (foldl f s xs)"
proof (induction xs arbitrary: s)
  case Nil
  then show ?case by simp
next
  case (Cons x xs)
  have "pushesAfter s (f s x)" by (rule assms)
  moreover have "pushesAfter (f s x) (foldl f (f s x) xs)" by (rule Cons.IH)
  ultimately show ?case by (simp add: pushesAfter_trans)
qed

lemma pushesAfter_disconnectPort: "pushesAfter t (disconnectPort opt t p)"
  by (auto simp: disconnectPort_def pushesAfter_def split: option.splits)

lemma pushesAfter_checkAndConnect: "pushesAfter s (checkAndConnect cac opt item s)"
  unfolding checkAndConnect_def
  by (rule pushesAfter_foldl) (auto simp: pushesAfter_def)

lemma nopush_disconnectPort:
  "m_undoStack (disconnectPort DontPushUndoCmd t p) = m_undoStack t"
  by (simp add: disconnectPort_def split: option.splits)

lemma nopush_checkAndConnect:
  "m_undoStack (checkAndConnect cac DontPushUndoCmd item s) = m_undoStack s"
  unfolding checkAndConnect_def by (rule same_foldl) auto

lemma disconnectItems_calls:
  "\<exists>ps. list_all isPush ps \<and>
     m_undoStack (disconnectItems items opt s) =
       m_undoStack s @ (if opt = PushUndoCmd
                        then BeginMacro ''Disconnect items'' # ps @ [EndMacro] else [])"
proof (cases opt)
  case PushUndoCmd
  let ?s1 = "beginMacro ''Disconnect items'' s"
  have "pushesAfter ?s1
          (foldl (\<lambda>t item. foldl (disconnectPort opt) t (portsOf item t)) ?s1 items)"
    by (intro pushesAfter_foldl pushesAfter_disconnectPort)
  then show ?thesis using PushUndoCmd
    by (auto simp: disconnectItems_def Let_def pushesAfter_def)
next
  case DontPushUndoCmd
  have "m_undoStack
          (foldl (\<lambda>t item. foldl (disconnectPort DontPushUndoCmd) t (portsOf item t)) s items)
        = m_undoStack s"
    by (intro same_foldl nopush_disconnectPort)
  then show ?thesis using DontPushUndoCmd
    by (intro exI [of _ "[]"]) (simp add: disconnectItems_def Let_def)
qed

lemma connectItems_calls:
  "\<exists>ps. list_all isPush ps \<and>
     m_undoStack (connectItems cac items opt s) =
       m_undoStack s @ (if opt = PushUndoCmd
                        then BeginMacro ''Connect items'' # ps @ [EndMacro] else [])"
proof (cases opt)
  case PushUndoCmd
  let ?s1 = "beginMacro ''Connect items'' s"
  have "pushesAfter ?s1
          (foldl (\<lambda>t qItem.
                  if isComponent qItem t then checkAndConnect cac opt qItem t
                  else if isWire qItem t then checkAndConnect cac opt qItem t
                  else t) ?s1 items)"
    by (intro pushesAfter_foldl) (simp add: pushesAfter_checkAndConnect)
  then show ?thesis using PushUndoCmd
    by (auto simp: connectItems_def Let_def pushesAfter_def)
next
  case DontPushUndoCmd
  have "m_undoStack (foldl (\<lambda>t qItem.
                  if isComponent qItem t then checkAndConnect cac DontPushUndoCmd qItem t
                  else if isWire qItem t then checkAndConnect cac DontPushUndoCmd qItem t
                  else t) s items)
        = m_undoStack s"
    by (intro same_foldl) (simp add: nopush_checkAndConnect)
  then show ?thesis using DontPushUndoCmd
    by (intro exI [of _ "[]"]) (simp add: connectItems_def Let_def)
qed

lemmas scene_eval =
  mirrorItems_def disconnectItems_def connectItems_def disconnectPort_def checkAndConnect_def
  portsOf_def getAnyConnectedPort_def connectedPorts_def disconnectFrom_def connectTo_def
  isComponent_def isWire_def hasKind_def lookupItem_def updateItem_def setPos_def posOf_def
  push_def beginMacro_def endMacro_def noOverlaps_def newComponent_def newItem_def
  initialScene_def Let_def

text \<open>
  C4, as stated: at every point of a scene operation at most one undo macro is open, and
  \<open>mirrorItems\<close> never issues a nested \<open>beginMacro\<close>. Mirroring the resistor of the
  example with the undo option: \<open>disconnectItems\<close> opens its macro "Disconnect items"
  inside the macro "Mirror X", and two macros are open.
\<close>

theorem mirrorItems_nested_macro_counterexample:
  "m_undoStack (mirrorItems noOverlaps [0] PushUndoCmd XAxis connectedScene) =
     [BeginMacro ''Mirror X'', BeginMacro ''Disconnect items'', Push (DisconnectCmd 2 4),
      EndMacro, Push (MirrorItemsCmd [0] XAxis), BeginMacro ''Connect items'', EndMacro,
      EndMacro] \<and>
   maxOpenMacros 0 (m_undoStack (mirrorItems noOverlaps [0] PushUndoCmd XAxis connectedScene))
     = 2"
  by (simp add: scene_eval connectedScene_def)

text \<open>
  C4, amended: undo macros nest, two deep. With the undo option \<open>mirrorItems\<close> opens its
  macro, and \<open>disconnectItems\<close> and \<open>connectItems\<close> each open and close one inside it: at
  every point of the operation at most two macros more are open than before it, two are
  reached, and every macro the operation opens is closed when it returns. Without the
  undo option it makes no call on the undo stack.
\<close>

theorem mirrorItems_macros:
  "\<exists>calls. m_undoStack (mirrorItems cac items opt axis s) = m_undoStack s @ calls \<and>
     (if opt = PushUndoCmd
      then openMacros d calls = d \<and> maxOpenMacros d calls = d + 2
      else calls = [])"
proof -
  obtain s1 where s1: "s1 = (if opt = PushUndoCmd
                then (if axis = XAxis then beginMacro ''Mirror X'' s else beginMacro ''Mirror Y'' s)
                else s)" by simp
  obtain ps where ps: "list_all isPush ps"
    "m_undoStack (disconnectItems items opt s1) =
       m_undoStack s1 @ (if opt = PushUndoCmd
                        then BeginMacro ''Disconnect items'' # ps @ [EndMacro] else [])"
    using disconnectItems_calls by blast
  define s2 where "s2 = disconnectItems items opt s1"
  define s3 where "s3 = (if opt = PushUndoCmd then push (MirrorItemsCmd items axis) s2
                else redo (MirrorItemsCmd items axis) s2)"
  obtain qs where qs: "list_all isPush qs"
    "m_undoStack (connectItems cac items opt s3) =
       m_undoStack s3 @ (if opt = PushUndoCmd
                        then BeginMacro ''Connect items'' # qs @ [EndMacro] else [])"
    using connectItems_calls by blast
  have m: "mirrorItems cac items opt axis s =
      (if opt = PushUndoCmd then endMacro (connectItems cac items opt s3)
       else connectItems cac items opt s3)"
    by (simp add: mirrorItems_def Let_def s1 s2_def s3_def)
  show ?thesis
  proof (cases opt)
    case PushUndoCmd
    let ?l = "if axis = XAxis then ''Mirror X'' else ''Mirror Y''"
    let ?calls = "BeginMacro ?l # (BeginMacro ''Disconnect items'' # ps @ [EndMacro])
        @ [Push (MirrorItemsCmd items axis)] @ (BeginMacro ''Connect items'' # qs @ [EndMacro])
        @ [EndMacro]"
    have "m_undoStack (mirrorItems cac items opt axis s) = m_undoStack s @ ?calls"
      using PushUndoCmd ps(2) qs(2) m s1 unfolding s3_def s2_def by (cases axis) simp_all
    moreover have "openMacros d ?calls = d"
      using ps(1) qs(1)
      by (simp add: openMacros_append openMacros_pushes)
    moreover have "maxOpenMacros d ?calls = d + 2"
      using ps(1) qs(1)
      by (simp add: openMacros_append maxOpenMacros_append openMacros_pushes
          maxOpenMacros_pushes)
    ultimately show ?thesis using PushUndoCmd by (intro exI [of _ ?calls]) simp
  next
    case DontPushUndoCmd
    then show ?thesis using ps(2) qs(2) m s1 unfolding s3_def s2_def by simp
  qed
qed

theorem mirrorItems_macros_witness:
  "openMacros 0 (m_undoStack (mirrorItems noOverlaps [0] PushUndoCmd YAxis connectedScene)) = 0 \<and>
   maxOpenMacros 0 (m_undoStack (mirrorItems noOverlaps [0] PushUndoCmd YAxis connectedScene)) = 2 \<and>
   m_undoStack (mirrorItems noOverlaps [0] DontPushUndoCmd YAxis connectedScene) = []"
proof -
  have e: "m_undoStack connectedScene = []"
    by (simp add: connectedScene_def initialScene_def)
  show ?thesis
    using mirrorItems_macros [of noOverlaps "[0]" PushUndoCmd YAxis connectedScene 0]
      mirrorItems_macros [of noOverlaps "[0]" DontPushUndoCmd YAxis connectedScene 0] e
    by auto
qed

section \<open>The wiring state machine\<close>

lemma map_of_update_list:
  "map_of (map (\<lambda>(q, it). if q = p then (q, f it) else (q, it)) xs) r =
     (if r = p then map_option f (map_of xs p) else map_of xs r)"
  by (induction xs) auto

lemma lookupItem_updateItem:
  "lookupItem r (updateItem p f s) =
     (if r = p then map_option f (lookupItem p s) else lookupItem r s)"
  by (simp add: lookupItem_def updateItem_def map_of_update_list)

lemma wiringEvents_append:
  "wiringEvents (xs @ ys) s = andThen (wiringEvents xs s) (wiringEvents ys)"
  by (induction xs arbitrary: s) (auto simp: andThen_def split: sum.splits)

lemma filter_nonnull:
  "list_ex P xs \<Longrightarrow> filter P xs \<noteq> []"
  by (induction xs) auto


lemma frame_updateItem [simp]:
  "connections (updateItem p f s) = connections s"
  "m_currentWiringWire (updateItem p f s) = m_currentWiringWire s"
  "m_wiringState (updateItem p f s) = m_wiringState s"
  by (simp_all add: updateItem_def)

lemma frame_beginMacro [simp]:
  "lookupItem p (beginMacro l s) = lookupItem p s"
  "connections (beginMacro l s) = connections s"
  "m_currentWiringWire (beginMacro l s) = m_currentWiringWire s"
  "m_wiringState (beginMacro l s) = m_wiringState s"
  by (simp_all add: beginMacro_def lookupItem_def)

lemma frame_endMacro [simp]:
  "lookupItem p (endMacro s) = lookupItem p s"
  "connections (endMacro s) = connections s"
  "m_currentWiringWire (endMacro s) = m_currentWiringWire s"
  "m_wiringState (endMacro s) = m_wiringState s"
  by (simp_all add: endMacro_def lookupItem_def)

lemma hasConnection_frame:
  "connections t = connections s \<Longrightarrow> hasConnection p t = hasConnection p s"
  by (simp add: hasConnection_def connectedPorts_def)

lemma lookupItem_wiringState [simp]:
  "lookupItem p (s\<lparr>m_wiringState := x\<rparr>) = lookupItem p s"
  "lookupItem p (s\<lparr>m_currentWiringWire := y\<rparr>) = lookupItem p s"
  "lookupItem p (s\<lparr>m_undoStack := z\<rparr>) = lookupItem p s"
  by (simp_all add: lookupItem_def)

lemma hasConnection_simps [simp]:
  "hasConnection p (updateItem q f s) = hasConnection p s"
  "hasConnection p (beginMacro l s) = hasConnection p s"
  "hasConnection p (endMacro s) = hasConnection p s"
  "hasConnection p (s\<lparr>m_wiringState := x\<rparr>) = hasConnection p s"
  "hasConnection p (s\<lparr>m_currentWiringWire := y\<rparr>) = hasConnection p s"
  "hasConnection p (s\<lparr>m_undoStack := z\<rparr>) = hasConnection p s"
  by (simp_all add: hasConnection_def connectedPorts_def)

lemma push_AddWireCmd:
  "push (AddWireCmd w) s =
     updateItem w (\<lambda>it. it\<lparr>onScene := True\<rparr>) (s\<lparr>m_undoStack := m_undoStack s @ [Push (AddWireCmd w)]\<rparr>)"
  by (simp add: push_def)

lemma push_WireStateChangeCmd:
  "push (WireStateChangeCmd w b a) s =
     updateItem w (\<lambda>it. it\<lparr>wireLines := a\<rparr>)
       (s\<lparr>m_undoStack := m_undoStack s @ [Push (WireStateChangeCmd w b a)]\<rparr>)"
  by (simp add: push_def)

lemma map_of_fresh:
  "list_all (\<lambda>(q, it). q < (f :: nat)) xs \<Longrightarrow> map_of (xs @ [(f, it)]) f = Some it"
  by (induction xs) auto

lemma connectedPorts_fresh:
  "list_all (\<lambda>(a, b). a < f \<and> b < f) cs \<Longrightarrow> (f :: nat) \<le> p \<Longrightarrow>
     concat (map (\<lambda>(a, b). (if a = p then [b] else []) @ (if b = p then [a] else [])) cs) = []"
  by (induction cs) auto

lemma checkAndConnect_frame:
  "objects (checkAndConnect cac PushUndoCmd w s) = objects s"
  "m_currentWiringWire (checkAndConnect cac PushUndoCmd w s) = m_currentWiringWire s"
  "m_wiringState (checkAndConnect cac PushUndoCmd w s) = m_wiringState s"
  "length (filter isWiringCommit (m_undoStack (checkAndConnect cac PushUndoCmd w s)))
     = length (filter isWiringCommit (m_undoStack s))"
  unfolding checkAndConnect_def
  by (rule same_foldl; simp add: push_def connectTo_def split: prod.splits)+

lemma lookupItem_checkAndConnect [simp]:
  "lookupItem p (checkAndConnect cac PushUndoCmd w s) = lookupItem p s"
  by (simp add: lookupItem_def checkAndConnect_frame)

lemma connections_checkAndConnect:
  "connections (checkAndConnect cac PushUndoCmd w s) = rev (cac s w) @ connections s"
proof -
  have "connections (foldl (\<lambda>t (p, q). push (ConnectCmd p q) t) s0 ps) = rev ps @ connections s0"
    for s0 ps
    by (induction ps arbitrary: s0) (auto simp: push_def connectTo_def)
  then show ?thesis by (simp add: checkAndConnect_def)
qed

lemma hasConnection_iff:
  "hasConnection p s = list_ex (\<lambda>(x, y). x = p \<or> y = p) (connections s)"
proof -
  have "(concat (map (\<lambda>(a, b). (if a = p then [b] else []) @ (if b = p then [a] else [])) cs) \<noteq> [])
          = list_ex (\<lambda>(x, y). x = p \<or> y = p) cs" for cs
    by (induction cs) auto
  then show ?thesis by (simp add: hasConnection_def connectedPorts_def)
qed

lemma hasConnection_checkAndConnect:
  "hasConnection p (checkAndConnect cac PushUndoCmd w s)
     = (list_ex (\<lambda>(x, y). x = p \<or> y = p) (cac s w) \<or> hasConnection p s)"
  by (auto simp: hasConnection_iff connections_checkAndConnect list_ex_iff)


lemma continuing_click:
  assumes st: "m_wiringState s = SINGLETON_WIRE \<or> m_wiringState s = COMPLEX_WIRE"
    and w: "wireInProgress w pb s"
    and a: "continuesWire pb a"
  shows "\<exists>s'. wiringEvents [(a, moveTo p), (a, leftClickAt p)] s = Inr s'
           \<and> m_wiringState s' = COMPLEX_WIRE \<and> wireInProgress w pb s'
           \<and> wiringCommits s' = wiringCommits s + 1"
proof -
  obtain it pa where it: "m_currentWiringWire s = Some w" "lookupItem w s = Some it"
    "onScene it" "itemPorts it = [pa, pb]" "\<not> hasConnection pb s"
    using w by (auto simp: wireInProgress_def split: option.splits list.splits)
  have nz: "filter (\<lambda>l. lineP1 l \<noteq> lineP2 l) (movedLines a) \<noteq> []" "movedLines a \<noteq> []"
    using a by (auto simp: continuesWire_def dest: filter_nonnull)
  have ov: "\<not> overlapAnswer a" "\<not> list_ex (\<lambda>(x, y). x = pb \<or> y = pb) (foundPorts a)"
    using a by (simp_all add: continuesWire_def connectsPort_def)
  define sm where "sm = updateItem w (wireSetState (movedLines a)) s"
  have mv: "wiringEvent a (moveTo p) s = Inr sm"
    using st it by (auto simp: wiringEvent_def wiringEventMouseMove_def moveTo_def andThen_def
        currentWire_def sm_def)
  have cw: "currentWire sm = Inr (w, wireSetState (movedLines a) it)"
    using it by (simp add: currentWire_def sm_def lookupItem_updateItem)
  have stm: "m_wiringState sm = m_wiringState s" by (simp add: sm_def)
  have "\<exists>s'. wiringEventLeftMouseClick a p sm = Inr s'
           \<and> m_wiringState s' = COMPLEX_WIRE \<and> wireInProgress w pb s'
           \<and> wiringCommits s' = wiringCommits sm + 1"
    using st
  proof
    assume "m_wiringState s = SINGLETON_WIRE"
    then show ?thesis
      using it nz ov cw stm
      by (simp add: wiringEventLeftMouseClick_def andThen_def
       wiringEventLeftMouseClickCommonComplexSingletonWire_def Let_def
       checkAndConnect_frame hasConnection_checkAndConnect
       finalizeOrContinue_def port2HasConnection_def wiringEventLeftMouseClickAddSegment_def
       wireInProgress_def currentWire_def lookupItem_updateItem push_AddWireCmd sm_def
       wiringCommits_def
       wireSetState_def removeNullLines_def wireStoreState_def
       split: list.splits)
  next
    assume "m_wiringState s = COMPLEX_WIRE"
    then show ?thesis
      using it nz ov cw stm
      by (simp add: wiringEventLeftMouseClick_def andThen_def
       wiringEventLeftMouseClickCommonComplexSingletonWire_def Let_def
       checkAndConnect_frame hasConnection_checkAndConnect
       finalizeOrContinue_def port2HasConnection_def wiringEventLeftMouseClickAddSegment_def
       wireInProgress_def currentWire_def lookupItem_updateItem push_WireStateChangeCmd sm_def
       wiringCommits_def
       wireSetState_def removeNullLines_def wireStoreState_def
       split: list.splits)
  qed
  then show ?thesis
    using mv by (auto simp: andThen_def wiringEvent_def wiringEventMouseClick_def leftClickAt_def sm_def
        wiringCommits_def)
qed

lemma finalizing_click:
  assumes st: "m_wiringState s = SINGLETON_WIRE \<or> m_wiringState s = COMPLEX_WIRE"
    and w: "wireInProgress w pb s"
    and a: "\<not> overlapAnswer a" "connectsPort pb a"
  shows "\<exists>s'. wiringEvents [(a, moveTo p), (a, leftClickAt p)] s = Inr s'
           \<and> m_wiringState s' = NO_WIRE \<and> m_currentWiringWire s' = None
           \<and> wiringCommits s' = wiringCommits s + 1 \<and> w \<in> set (sceneItems s')"
proof -
  obtain it pa where it: "m_currentWiringWire s = Some w" "lookupItem w s = Some it"
    "onScene it" "itemPorts it = [pa, pb]"
    using w by (auto simp: wireInProgress_def split: option.splits list.splits)
  have ov: "\<not> overlapAnswer a" "list_ex (\<lambda>(x, y). x = pb \<or> y = pb) (foundPorts a)"
    using a by (simp_all add: connectsPort_def)
  define sm where "sm = updateItem w (wireSetState (movedLines a)) s"
  have mv: "wiringEvent a (moveTo p) s = Inr sm"
    using st it by (auto simp: wiringEvent_def wiringEventMouseMove_def moveTo_def andThen_def
        currentWire_def sm_def)
  have cw: "currentWire sm = Inr (w, wireSetState (movedLines a) it)"
    using it by (simp add: currentWire_def sm_def lookupItem_updateItem)
  have stm: "m_wiringState sm = m_wiringState s" by (simp add: sm_def)
  have on: "w \<in> set (sceneItems t)" if "lookupItem w t = Some it'" "onScene it'" for t it'
    using that by (force simp: sceneItems_def lookupItem_def dest: map_of_SomeD)
  have "\<exists>s'. wiringEventLeftMouseClick a p sm = Inr s'
           \<and> m_wiringState s' = NO_WIRE \<and> m_currentWiringWire s' = None
           \<and> wiringCommits s' = wiringCommits sm + 1
           \<and> (\<exists>it'. lookupItem w s' = Some it' \<and> onScene it')"
    using st
  proof
    assume "m_wiringState s = SINGLETON_WIRE"
    then show ?thesis
      using it ov cw stm
      by (simp add: wiringEventLeftMouseClick_def andThen_def
       wiringEventLeftMouseClickCommonComplexSingletonWire_def Let_def
       checkAndConnect_frame hasConnection_checkAndConnect
       finalizeOrContinue_def port2HasConnection_def wiringEventMouseClickFinalize_def
       currentWire_def lookupItem_updateItem push_AddWireCmd sm_def
       wiringCommits_def wireShow_def
       wireSetState_def removeNullLines_def)
  next
    assume "m_wiringState s = COMPLEX_WIRE"
    then show ?thesis
      using it ov cw stm
      by (simp add: wiringEventLeftMouseClick_def andThen_def
       wiringEventLeftMouseClickCommonComplexSingletonWire_def Let_def
       checkAndConnect_frame hasConnection_checkAndConnect
       finalizeOrContinue_def port2HasConnection_def wiringEventMouseClickFinalize_def
       currentWire_def lookupItem_updateItem push_WireStateChangeCmd sm_def
       wiringCommits_def wireShow_def
       wireSetState_def removeNullLines_def)
  qed
  then show ?thesis
    using mv on
    by (auto simp: andThen_def wiringEvent_def wiringEventMouseClick_def leftClickAt_def sm_def
        wiringCommits_def)
qed

lemma first_click:
  assumes st: "m_wiringState s = NO_WIRE" and al: "allocated s"
  shows "\<exists>s'. wiringEvents [(a, moveTo p), (a, leftClickAt p)] s = Inr s'
           \<and> m_wiringState s' = SINGLETON_WIRE
           \<and> wireInProgress (freshPtr s) (freshPtr s + 2) s'
           \<and> wiringCommits s' = wiringCommits s"
proof -
  have mv: "wiringEvent a (moveTo p) s = Inr s"
    using st by (simp add: wiringEvent_def wiringEventMouseMove_def moveTo_def)
  have l: "map_of (objects s @ [(freshPtr s, it)]) (freshPtr s) = Some it" for it
    using al map_of_fresh [of "freshPtr s" "objects s" it] by (simp add: allocated_def)
  have c: "\<not> hasConnection (Suc (Suc (freshPtr s))) t" if "connections t = connections s" for t
    using al that connectedPorts_fresh [of "freshPtr s" "connections s" "Suc (Suc (freshPtr s))"]
    by (simp add: allocated_def hasConnection_def connectedPorts_def)
  show ?thesis
    using st mv
    by (simp add: andThen_def wiringEvent_def wiringEventMouseClick_def leftClickAt_def
        wiringEventLeftMouseClick_def newWire_def Let_def wireInProgress_def lookupItem_def l c
        wiringCommits_def del: map_of_append)
qed

lemma right_click:
  assumes st: "m_wiringState s = SINGLETON_WIRE \<or> m_wiringState s = COMPLEX_WIRE"
    and w: "wireInProgress w pb s"
    and a: "\<not> overlapAnswer a"
  shows "\<exists>s'. wiringEvents (rightClick (a, p)) s = Inr s'
           \<and> m_wiringState s' = NO_WIRE \<and> m_currentWiringWire s' = None
           \<and> wiringCommits s' = wiringCommits s + 1 \<and> w \<in> set (sceneItems s')"
proof -
  obtain it where it: "m_currentWiringWire s = Some w" "lookupItem w s = Some it" "onScene it"
    using w by (auto simp: wireInProgress_def split: option.splits list.splits)
  define sm where "sm = updateItem w (wireSetState (movedLines a)) s"
  have mv: "wiringEvent a (moveTo p) s = Inr sm"
    using st it by (auto simp: wiringEvent_def wiringEventMouseMove_def moveTo_def andThen_def
        currentWire_def sm_def)
  have cw: "currentWire sm = Inr (w, wireSetState (movedLines a) it)"
    using it by (simp add: currentWire_def sm_def lookupItem_updateItem)
  have stm: "m_wiringState sm = m_wiringState s" by (simp add: sm_def)
  have on: "w \<in> set (sceneItems t)" if "lookupItem w t = Some it'" "onScene it'" for t it'
    using that by (force simp: sceneItems_def lookupItem_def dest: map_of_SomeD)
  have "\<exists>s'. wiringEventRightMouseClick a sm = Inr s'
           \<and> m_wiringState s' = NO_WIRE \<and> m_currentWiringWire s' = None
           \<and> wiringCommits s' = wiringCommits sm + 1
           \<and> (\<exists>it'. lookupItem w s' = Some it' \<and> onScene it')"
    using st
  proof
    assume "m_wiringState s = SINGLETON_WIRE"
    then show ?thesis
      using it a cw stm
      by (simp add: wiringEventRightMouseClick_def andThen_def
       wiringEventLeftMouseClickCommonComplexSingletonWire_def Let_def
       finalizeToNoWire_def wiringEventMouseClickFinalize_def checkAndConnect_frame
       currentWire_def lookupItem_updateItem push_AddWireCmd sm_def
       wireSetState_def removeNullLines_def wireShow_def wiringCommits_def)
  next
    assume "m_wiringState s = COMPLEX_WIRE"
    then show ?thesis
      using it a cw stm
      by (simp add: wiringEventRightMouseClick_def andThen_def
       wiringEventLeftMouseClickCommonComplexSingletonWire_def Let_def
       finalizeToNoWire_def wiringEventMouseClickFinalize_def checkAndConnect_frame
       currentWire_def lookupItem_updateItem push_WireStateChangeCmd sm_def
       wireSetState_def removeNullLines_def wireShow_def wiringCommits_def)
  qed
  then show ?thesis
    using mv on
    by (auto simp: andThen_def wiringEvent_def wiringEventMouseClick_def rightClickAt_def
        rightClick_def sm_def wiringCommits_def)
qed

lemma leftClicks_Cons:
  "leftClicks ((a, p) # cs) = [(a, moveTo p), (a, leftClickAt p)] @ leftClicks cs"
  by (simp add: leftClicks_def)

lemma continuing_clicks:
  assumes "list_all (\<lambda>c. continuesWire pb (fst c)) cs"
    and "m_wiringState s = SINGLETON_WIRE \<or> m_wiringState s = COMPLEX_WIRE"
    and "wireInProgress w pb s"
  shows "\<exists>s'. wiringEvents (leftClicks cs) s = Inr s'
           \<and> (m_wiringState s' = SINGLETON_WIRE \<or> m_wiringState s' = COMPLEX_WIRE)
           \<and> wireInProgress w pb s'
           \<and> wiringCommits s' = wiringCommits s + length cs"
  using assms
proof (induction cs arbitrary: s)
  case Nil
  then show ?case by (simp add: leftClicks_def)
next
  case (Cons c cs)
  obtain a p where c: "c = (a, p)" by (cases c)
  have g: "continuesWire pb a" using Cons.prems(1) c by simp
  from continuing_click [OF Cons.prems(2) Cons.prems(3) g, of p]
  obtain s1 where s1: "wiringEvents [(a, moveTo p), (a, leftClickAt p)] s = Inr s1"
    "m_wiringState s1 = COMPLEX_WIRE" "wireInProgress w pb s1"
    "wiringCommits s1 = wiringCommits s + 1"
    by blast
  have "list_all (\<lambda>c. continuesWire pb (fst c)) cs" using Cons.prems(1) by simp
  from Cons.IH [OF this _ s1(3)] s1(2)
  obtain s2 where s2: "wiringEvents (leftClicks cs) s1 = Inr s2"
    "m_wiringState s2 = SINGLETON_WIRE \<or> m_wiringState s2 = COMPLEX_WIRE"
    "wireInProgress w pb s2" "wiringCommits s2 = wiringCommits s1 + length cs"
    by auto
  have "wiringEvents (leftClicks (c # cs)) s = Inr s2"
    unfolding c leftClicks_Cons wiringEvents_append using s1(1) s2(1)
    by (simp add: andThen_def)
  then show ?case using s2 s1(4) by simp
qed

lemma clicks_run:
  assumes st: "m_wiringState s = NO_WIRE"
    and al: "allocated s"
    and good: "\<forall>c \<in> set (tl cs). continuesWire (freshPtr s + 2) (fst c)"
    and last: "\<not> overlapAnswer (fst cr)"
  shows "\<exists>s'. wiringEvents (leftClicks cs @ rightClick cr) s = Inr s'
           \<and> m_wiringState s' = NO_WIRE
           \<and> m_currentWiringWire s' = (if cs = [] then m_currentWiringWire s else None)
           \<and> wiringCommits s' = wiringCommits s + length cs
           \<and> (cs \<noteq> [] \<longrightarrow> freshPtr s \<in> set (sceneItems s'))"
proof (cases cs)
  case Nil
  have "wiringEvents (rightClick cr) s = Inr (s\<lparr>m_wiringState := NO_WIRE\<rparr>)"
    using st
    by (simp add: rightClick_def wiringEvent_def wiringEventMouseMove_def moveTo_def
        rightClickAt_def wiringEventMouseClick_def wiringEventRightMouseClick_def andThen_def)
  then show ?thesis using Nil by (simp add: leftClicks_def wiringCommits_def)
next
  case (Cons c cs')
  obtain a p where c: "c = (a, p)" by (cases c)
  obtain ar q where cr: "cr = (ar, q)" by (cases cr)
  from first_click [OF st al, of a p]
  obtain s1 where s1: "wiringEvents [(a, moveTo p), (a, leftClickAt p)] s = Inr s1"
    "m_wiringState s1 = SINGLETON_WIRE" "wireInProgress (freshPtr s) (freshPtr s + 2) s1"
    "wiringCommits s1 = wiringCommits s"
    by blast
  have g: "list_all (\<lambda>c. continuesWire (freshPtr s + 2) (fst c)) cs'"
    using good Cons by (simp add: list_all_iff)
  from continuing_clicks [OF g _ s1(3)] s1(2)
  obtain s2 where s2: "wiringEvents (leftClicks cs') s1 = Inr s2"
    "m_wiringState s2 = SINGLETON_WIRE \<or> m_wiringState s2 = COMPLEX_WIRE"
    "wireInProgress (freshPtr s) (freshPtr s + 2) s2"
    "wiringCommits s2 = wiringCommits s1 + length cs'"
    by auto
  from right_click [OF s2(2) s2(3), of ar q] last cr
  obtain s3 where s3: "wiringEvents (rightClick (ar, q)) s2 = Inr s3"
    "m_wiringState s3 = NO_WIRE" "m_currentWiringWire s3 = None"
    "wiringCommits s3 = wiringCommits s2 + 1" "freshPtr s \<in> set (sceneItems s3)"
    by auto
  have "wiringEvents (leftClicks cs @ rightClick cr) s = Inr s3"
    unfolding Cons c cr leftClicks_Cons wiringEvents_append using s1(1) s2(1) s3(1)
    by (simp add: andThen_def)
  then show ?thesis using s3 s2(4) s1(4) Cons by simp
qed

lemmas wiring_eval =
  wiringEvent_def wiringEventMouseClick_def wiringEventMouseMove_def
  wiringEventLeftMouseClick_def wiringEventRightMouseClick_def
  wiringEventLeftMouseClickCommonComplexSingletonWire_def finalizeOrContinue_def
  finalizeToNoWire_def wiringEventMouseClickFinalize_def
  wiringEventLeftMouseClickAddSegment_def port2HasConnection_def currentWire_def newWire_def
  andThen_def lookupItem_def updateItem_def checkAndConnect_def push_def beginMacro_def
  endMacro_def hasConnection_def connectedPorts_def connectTo_def wireShow_def
  wireSetState_def wireStoreState_def removeNullLines_def leftClicks_def rightClick_def
  moveTo_def leftClickAt_def rightClickAt_def newComponent_def newItem_def initialScene_def
  Let_def

text \<open>
  C1, as stated: from \<open>NO_WIRE\<close>, N left clicks at positions where the wire does not
  overlap itself, then a right click, leave N committed segments. Two left clicks and a
  right click on the scene of the resistor and the capacitor, the second click landing
  on port 5 of the capacitor: \<open>checkAndConnect\<close> connects the free end, the left click
  finalizes the wire, and the right click finds \<open>NO_WIRE\<close> and does nothing. One segment
  is committed, not two.
\<close>

theorem wiring_early_finish_counterexample:
  "wiringOutcome
     (wiringEvents
        (leftClicks
           [(\<lparr>overlapAnswer = False, foundPorts = [], movedLines = []\<rparr>, (0, 10)),
            (\<lparr>overlapAnswer = False, foundPorts = [(8, 5)],
              movedLines = [WireLine (0, 10) (30, 10), WireLine (30, 10) (30, 0)]\<rparr>, (30, 0))]
         @ rightClick
             (\<lparr>overlapAnswer = False, foundPorts = [], movedLines = []\<rparr>, (30, 0)))
        connectedScene)
   = Inr (NO_WIRE, None, 1, [0, 3, 6])"
  by (simp add: wiring_eval connectedScene_def wiringOutcome_def wiringCommits_def
      sceneItems_def)

text \<open>
  C1, amended: from \<open>NO_WIRE\<close> in a scene whose objects and connected ports have addresses
  already handed out, N left clicks followed by one right click, each click after a move
  of the mouse to its position, end in \<open>NO_WIRE\<close> with exactly N segments committed to
  the undo stack more than before, provided that at the right click and at every left
  click after the first the wire does not overlap itself, and that at every left click
  after the first \<open>checkAndConnect\<close> does not connect the free end of the wire (its
  second port) and the wire has a segment that is not null. When N is at least 1,
  \<open>m_currentWiringWire\<close> is null afterwards and the wire is on the scene; when N is 0 the
  right click changes nothing. A left click at which the free end of the wire in progress
  gets connected commits its segment and finalizes the wire at once: the state is
  \<open>NO_WIRE\<close> and \<open>m_currentWiringWire\<close> is null. A left click in \<open>NO_WIRE\<close> commits nothing
  and starts a new wire.
\<close>

theorem wiring_clicks_then_right_click:
  "(m_wiringState s = NO_WIRE \<and> allocated s
      \<and> (\<forall>c \<in> set (tl cs). continuesWire (freshPtr s + 2) (fst c))
      \<and> \<not> overlapAnswer (fst cr) \<longrightarrow>
      (\<exists>s'. wiringEvents (leftClicks cs @ rightClick cr) s = Inr s'
           \<and> m_wiringState s' = NO_WIRE
           \<and> m_currentWiringWire s' = (if cs = [] then m_currentWiringWire s else None)
           \<and> wiringCommits s' = wiringCommits s + length cs
           \<and> (cs \<noteq> [] \<longrightarrow> freshPtr s \<in> set (sceneItems s'))))
   \<and> ((m_wiringState t = SINGLETON_WIRE \<or> m_wiringState t = COMPLEX_WIRE)
      \<and> wireInProgress w port2 t \<and> \<not> overlapAnswer a \<and> connectsPort port2 a \<longrightarrow>
      (\<exists>t'. wiringEvents (leftClicks [(a, p)]) t = Inr t'
           \<and> m_wiringState t' = NO_WIRE \<and> m_currentWiringWire t' = None
           \<and> wiringCommits t' = wiringCommits t + 1 \<and> w \<in> set (sceneItems t')))
   \<and> (m_wiringState u = NO_WIRE \<and> allocated u \<longrightarrow>
      (\<exists>u'. wiringEvents (leftClicks [(b, q)]) u = Inr u'
           \<and> m_wiringState u' = SINGLETON_WIRE
           \<and> wireInProgress (freshPtr u) (freshPtr u + 2) u'
           \<and> lookupItem (freshPtr u) u = None
           \<and> wiringCommits u' = wiringCommits u))"
proof (intro conjI impI)
  assume "m_wiringState s = NO_WIRE \<and> allocated s
      \<and> (\<forall>c \<in> set (tl cs). continuesWire (freshPtr s + 2) (fst c))
      \<and> \<not> overlapAnswer (fst cr)"
  then show "\<exists>s'. wiringEvents (leftClicks cs @ rightClick cr) s = Inr s'
           \<and> m_wiringState s' = NO_WIRE
           \<and> m_currentWiringWire s' = (if cs = [] then m_currentWiringWire s else None)
           \<and> wiringCommits s' = wiringCommits s + length cs
           \<and> (cs \<noteq> [] \<longrightarrow> freshPtr s \<in> set (sceneItems s'))"
    using clicks_run by blast
next
  assume "(m_wiringState t = SINGLETON_WIRE \<or> m_wiringState t = COMPLEX_WIRE)
      \<and> wireInProgress w port2 t \<and> \<not> overlapAnswer a \<and> connectsPort port2 a"
  then show "\<exists>t'. wiringEvents (leftClicks [(a, p)]) t = Inr t'
           \<and> m_wiringState t' = NO_WIRE \<and> m_currentWiringWire t' = None
           \<and> wiringCommits t' = wiringCommits t + 1 \<and> w \<in> set (sceneItems t')"
    using finalizing_click [of t w port2 a p] by (simp add: leftClicks_def)
next
  assume u: "m_wiringState u = NO_WIRE \<and> allocated u"
  have "lookupItem (freshPtr u) u = None"
  proof (rule ccontr)
    assume "lookupItem (freshPtr u) u \<noteq> None"
    then obtain it where "(freshPtr u, it) \<in> set (objects u)"
      by (auto simp: lookupItem_def dest: map_of_SomeD)
    then show False using u by (auto simp: allocated_def list_all_iff)
  qed
  then show "\<exists>u'. wiringEvents (leftClicks [(b, q)]) u = Inr u'
           \<and> m_wiringState u' = SINGLETON_WIRE
           \<and> wireInProgress (freshPtr u) (freshPtr u + 2) u'
           \<and> lookupItem (freshPtr u) u = None
           \<and> wiringCommits u' = wiringCommits u"
    using first_click [of u b q] u by (simp add: leftClicks_def)
qed

theorem wiring_clicks_then_right_click_witness:
  "map_sum id wiringCommits
     (wiringEvents
        (leftClicks [(freeAnswers [], (0, 0)),
                     (\<lparr>overlapAnswer = False, foundPorts = [(7, 1)],
                       movedLines = [WireLine (0, 0) (10, 0)]\<rparr>, (10, 0)),
                     (freeAnswers [WireLine (0, 0) (10, 0), WireLine (10, 0) (10, 0),
                                   WireLine (10, 0) (10, 5)], (10, 5))]
         @ rightClick (freeAnswers [WireLine (0, 0) (10, 0), WireLine (10, 0) (10, 5),
                                    WireLine (10, 5) (10, 5), WireLine (10, 5) (20, 5)], (20, 5)))
        connectedScene) = Inr 3
   \<and> map_sum id m_wiringState
       (wiringEvents
          (leftClicks [(\<lparr>overlapAnswer = False, foundPorts = [(2, 9)],
                         movedLines = [WireLine (0, 0) (10, 0)]\<rparr>, (10, 0))])
          singletonScene) = Inr NO_WIRE
   \<and> map_sum id m_wiringState
       (wiringEvents (leftClicks [(freeAnswers [], (0, 0))]) connectedScene)
     = Inr SINGLETON_WIRE"
proof (intro conjI)
  let ?cs = "[(freeAnswers [], (0 :: real, 0 :: real)),
                     (\<lparr>overlapAnswer = False, foundPorts = [(7, 1)],
                       movedLines = [WireLine (0, 0) (10, 0)]\<rparr>, (10, 0)),
                     (freeAnswers [WireLine (0, 0) (10, 0), WireLine (10, 0) (10, 0),
                                   WireLine (10, 0) (10, 5)], (10, 5))]"
  let ?cr = "(freeAnswers [WireLine (0, 0) (10, 0), WireLine (10, 0) (10, 5),
                 WireLine (10, 5) (10, 5), WireLine (10, 5) (20, 5)], (20 :: real, 5 :: real))"
  have a: "m_wiringState connectedScene = NO_WIRE"
    by (simp add: connectedScene_def initialScene_def)
  have b: "allocated connectedScene"
    by (simp add: allocated_def connectedScene_def initialScene_def)
  have f: "freshPtr connectedScene + 2 = 8" by (simp add: connectedScene_def initialScene_def)
  have c: "\<forall>c \<in> set (tl ?cs). continuesWire (freshPtr connectedScene + 2) (fst c)"
    unfolding f by (simp add: continuesWire_def connectsPort_def freeAnswers_def)
  have d: "\<not> overlapAnswer (fst ?cr)" by (simp add: freeAnswers_def)
  have e: "wiringCommits connectedScene = 0"
    by (simp add: wiringCommits_def connectedScene_def initialScene_def)
  from wiring_clicks_then_right_click [THEN conjunct1, THEN mp, of connectedScene ?cs ?cr]
    a b c d
  obtain s' where "wiringEvents (leftClicks ?cs @ rightClick ?cr) connectedScene = Inr s'"
    "wiringCommits s' = wiringCommits connectedScene + length ?cs"
    by blast
  then show "map_sum id wiringCommits
     (wiringEvents (leftClicks ?cs @ rightClick ?cr) connectedScene) = Inr 3"
    using e by simp
next
  let ?a = "\<lparr>overlapAnswer = False, foundPorts = [(2 :: nat, 9 :: nat)],
              movedLines = [WireLine (0, 0) (10, 0)]\<rparr>"
  have h: "(m_wiringState singletonScene = SINGLETON_WIRE
             \<or> m_wiringState singletonScene = COMPLEX_WIRE)
           \<and> wireInProgress 0 2 singletonScene \<and> \<not> overlapAnswer ?a \<and> connectsPort 2 ?a"
    by (simp add: singletonScene_def initialScene_def wireInProgress_def lookupItem_def
        newItem_def hasConnection_def connectedPorts_def connectsPort_def)
  from wiring_clicks_then_right_click
         [THEN conjunct2, THEN conjunct1, THEN mp, OF h, of "(10, 0)"]
  obtain t' where "wiringEvents (leftClicks [(?a, (10, 0))]) singletonScene = Inr t'"
    "m_wiringState t' = NO_WIRE"
    by blast
  then show "map_sum id m_wiringState
       (wiringEvents (leftClicks [(?a, (10, 0))]) singletonScene) = Inr NO_WIRE"
    by simp
next
  have h: "m_wiringState connectedScene = NO_WIRE \<and> allocated connectedScene"
    by (simp add: allocated_def connectedScene_def initialScene_def)
  from wiring_clicks_then_right_click
         [THEN conjunct2, THEN conjunct2, THEN mp, OF h, of "freeAnswers []" "(0, 0)"]
  obtain u' where "wiringEvents (leftClicks [(freeAnswers [], (0, 0))]) connectedScene = Inr u'"
    "m_wiringState u' = SINGLETON_WIRE"
    by blast
  then show "map_sum id m_wiringState
       (wiringEvents (leftClicks [(freeAnswers [], (0, 0))]) connectedScene)
     = Inr SINGLETON_WIRE"
    by simp
qed

section \<open>Distributing the selection\<close>

lemma objects_disconnectPort [simp]: "objects (disconnectPort opt t p) = objects t"
  by (simp add: disconnectPort_def push_def disconnectFrom_def split: option.splits)

lemma objects_disconnect_fold:
  "objects (foldl (\<lambda>t item. foldl (disconnectPort opt) t (portsOf item t)) s0 items)
     = objects s0"
  by (rule same_foldl) (simp add: same_foldl [where g = objects])

lemma objects_disconnectItems [simp]: "objects (disconnectItems items opt s) = objects s"
  by (simp add: disconnectItems_def Let_def beginMacro_def endMacro_def objects_disconnect_fold)

lemma objects_checkAndConnect [simp]: "objects (checkAndConnect cac opt item s) = objects s"
  unfolding checkAndConnect_def
  by (rule same_foldl) (simp add: push_def connectTo_def split: prod.splits)

lemma objects_connect_fold:
  "objects (foldl (\<lambda>t qItem.
                  if isComponent qItem t then checkAndConnect cac opt qItem t
                  else if isWire qItem t then checkAndConnect cac opt qItem t
                  else t) s0 items) = objects s0"
  by (rule same_foldl) simp

lemma objects_connectItems [simp]: "objects (connectItems cac items opt s) = objects s"
  by (simp add: connectItems_def Let_def beginMacro_def endMacro_def objects_connect_fold)

lemma objects_macro [simp]:
  "objects (beginMacro l s) = objects s" "objects (endMacro s) = objects s"
  by (simp_all add: beginMacro_def endMacro_def)

lemma by_objects:
  assumes "objects t = objects s"
  shows "lookupItem p t = lookupItem p s" "posOf t p = posOf s p" "isWire p t = isWire p s"
  using assms by (simp_all add: lookupItem_def posOf_def isWire_def hasKind_def)

lemma sort3:
  fixes f :: "'a \<Rightarrow> real"
  assumes "distinct items" "set items = {a, b, c}" "f a < f b" "f b < f c"
  shows "sort_key f items = [a, b, c]"
proof -
  let ?ys = "sort_key f items"
  have d: "distinct ?ys" using assms(1) by simp
  have s: "set ?ys = {a, b, c}" using assms(2) by simp
  have abc: "a \<noteq> b" "b \<noteq> c" "a \<noteq> c" using assms(3,4) by auto
  have "length ?ys = 3"
    using assms(1,2) abc distinct_card [of items] by simp
  then obtain u v w where y: "?ys = [u, v, w]"
    by (metis (no_types, lifting) length_0_conv length_Suc_conv numeral_3_eq_3)
  have so: "sorted (map f ?ys)" by simp
  have "f u \<le> f v" "f v \<le> f w" using so unfolding y by simp_all
  moreover have "{u, v, w} = {a, b, c}" using s unfolding y by simp
  moreover have "u \<noteq> v" "v \<noteq> w" "u \<noteq> w" using d unfolding y by simp_all
  ultimately have "u = a \<and> v = b \<and> w = c"
    using assms(3,4) by (auto simp: doubleton_eq_iff insert_eq_iff dest!: arg_cong [where f = "\<lambda>S. (a \<in> S, b \<in> S, c \<in> S)"])
  then show ?thesis using y by simp
qed


lemma posOf_setPos:
  "posOf (setPos p pos s) q = (if q = p \<and> lookupItem p s \<noteq> None then pos else posOf s q)"
  by (auto simp: posOf_def setPos_def lookupItem_def updateItem_def map_of_update_list
      split: option.splits)

lemma isWire_setPos [simp]: "isWire q (setPos p pos s) = isWire q s"
  by (auto simp: isWire_def hasKind_def setPos_def lookupItem_def updateItem_def
      map_of_update_list split: option.splits)

lemma lookupItem_setPos_None [simp]:
  "lookupItem q (setPos p pos s) = None \<longleftrightarrow> lookupItem q s = None"
  by (auto simp: setPos_def lookupItem_def updateItem_def map_of_update_list)

lemma push_MoveCmd: "push (MoveCmd p from to) s =
    setPos p to (s\<lparr>m_undoStack := m_undoStack s @ [Push (MoveCmd p from to)]\<rparr>)"
  by (simp add: push_def)

lemma frames_stack [simp]:
  "posOf (s\<lparr>m_undoStack := z\<rparr>) q = posOf s q"
  "isWire q (s\<lparr>m_undoStack := z\<rparr>) = isWire q s"
  by (simp_all add: posOf_def isWire_def hasKind_def lookupItem_def)

lemma filterQucsItems_live:
  "p \<in> set (filterQucsItems s ps) \<Longrightarrow> lookupItem p s \<noteq> None"
  by (auto simp: filterQucsItems_def split: option.splits)

lemma distribute_three:
  assumes sel: "distinct (filterQucsItems s (selectedItems s))"
      "set (filterQucsItems s (selectedItems s)) = {a, b, c}"
    and pos: "posOf s a = (0, ya)" "posOf s b = (30, yb)" "posOf s c = (90, yc)"
    and nw: "\<not> isWire a s" "\<not> isWire b s" "\<not> isWire c s"
  shows "\<exists>s'. distributeElements cac Horizontal s = Inr (True, s')
           \<and> posOf s' a = (0, ya) \<and> posOf s' b = (45, yb) \<and> posOf s' c = (90, yc)"
proof -
  let ?items = "filterQucsItems s (selectedItems s)"
  have abc: "a \<noteq> b" "b \<noteq> c" "a \<noteq> c" using pos by auto
  have len: "length ?items = 3" using sel abc distinct_card [of ?items] by simp
  have live: "lookupItem a s \<noteq> None" "lookupItem b s \<noteq> None" "lookupItem c s \<noteq> None"
    using sel(2) filterQucsItems_live [of _ s "selectedItems s"] by auto
  define s2 where "s2 = disconnectItems ?items PushUndoCmd (beginMacro ''Distribute horizontally'' s)"
  have o2: "objects s2 = objects s" by (simp add: s2_def)
  have srt: "sortByX s2 ?items = [a, b, c]"
    unfolding sortByX_def
    by (rule sort3 [OF sel]) (simp_all add: by_objects(2) [OF o2] pos)
  define s3 where "s3 = snd (foldl (distributeStepX 45) (0, s2) [a, b, c])"
  have p3: "posOf s3 a = (0, ya) \<and> posOf s3 b = (45, yb) \<and> posOf s3 c = (90, yc)"
    using abc live nw pos
    by (simp add: s3_def distributeStepX_def Let_def push_MoveCmd posOf_setPos
        by_objects [OF o2])
  have "distributeElementsHorizontally cac ?items s
          = Inr (endMacro (connectItems cac [a, b, c] PushUndoCmd s3))"
    using pos
    by (simp add: distributeElementsHorizontally_def Let_def s2_def [symmetric] srt len
        by_objects(2) [OF o2] s3_def)
  moreover have "posOf (endMacro (connectItems cac [a, b, c] PushUndoCmd s3)) q = posOf s3 q" for q
    by (rule by_objects(2)) simp
  ultimately show ?thesis
    using p3 len by (simp add: distributeElements_def Let_def andThen_def)
qed


lemmas distribute_eval =
  distributeElements_def distributeElementsHorizontally_def distributeStepX_def sortByX_def
  selectedItems_def filterQucsItems_def andThen_def positionsAfter_def

text \<open>
  C8, as stated: three selected items at the abscissas 0, 30 and 90 are distributed to 0,
  45 and 90. With a wire as the item at 30: the loop skips the wire without advancing,
  so the wire stays at 30 and the component at 90 is moved to 45.
\<close>

theorem distribute_wire_counterexample:
  "positionsAfter [1, 2, 0] (distributeElements noOverlaps Horizontal wireAmongComponents)
     = Inr (True, [(0, 0), (30, 0), (45, 0)])"
  by (simp add: distribute_eval scene_eval wireAmongComponents_def)

text \<open>
  C8, amended: with fewer than two \<open>QucsItem\<close>s selected, \<open>distributeElements\<close> and
  \<open>alignElements\<close> return false and leave the scene, the undo stack included, as it was.
  When the selected \<open>QucsItem\<close>s are three items that are not wires, at the abscissas 0,
  30 and 90, distributing horizontally returns true and leaves them at 0, 45 and 90,
  their ordinates unchanged.
\<close>

theorem distribute_align_selection:
  "(length (filterQucsItems s (selectedItems s)) < 2 \<longrightarrow>
      distributeElements cac orientation s = Inr (False, s) \<and>
      alignElements cac alignment s = (False, s)) \<and>
   (distinct (filterQucsItems s (selectedItems s)) \<and>
    set (filterQucsItems s (selectedItems s)) = {a, b, c} \<and>
    posOf s a = (0, ya) \<and> posOf s b = (30, yb) \<and> posOf s c = (90, yc) \<and>
    \<not> isWire a s \<and> \<not> isWire b s \<and> \<not> isWire c s \<longrightarrow>
      (\<exists>s'. distributeElements cac Horizontal s = Inr (True, s')
            \<and> posOf s' a = (0, ya) \<and> posOf s' b = (45, yb) \<and> posOf s' c = (90, yc)))"
proof (intro conjI impI)
  assume "length (filterQucsItems s (selectedItems s)) < 2"
  then show "distributeElements cac orientation s = Inr (False, s)"
    by (simp add: distributeElements_def Let_def)
next
  assume l: "length (filterQucsItems s (selectedItems s)) < 2"
  show "alignElements cac alignment s = (False, s)"
  proof (cases "filterQucsItems s (selectedItems s)")
    case Nil
    then show ?thesis by (simp add: alignElements_def Let_def)
  next
    case (Cons i rest)
    then have "rest = []" using l by simp
    then show ?thesis using Cons by (simp add: alignElements_def Let_def)
  qed
next
  assume "distinct (filterQucsItems s (selectedItems s)) \<and>
    set (filterQucsItems s (selectedItems s)) = {a, b, c} \<and>
    posOf s a = (0, ya) \<and> posOf s b = (30, yb) \<and> posOf s c = (90, yc) \<and>
    \<not> isWire a s \<and> \<not> isWire b s \<and> \<not> isWire c s"
  then show "\<exists>s'. distributeElements cac Horizontal s = Inr (True, s')
            \<and> posOf s' a = (0, ya) \<and> posOf s' b = (45, yb) \<and> posOf s' c = (90, yc)"
    using distribute_three by blast
qed

theorem distribute_align_selection_witness:
  "positionsAfter [1, 2, 0] (distributeElements noOverlaps Horizontal threeComponents)
     = Inr (True, [(0, 0), (45, 5), (90, 0)]) \<and>
   distributeElements noOverlaps Horizontal connectedScene = Inr (False, connectedScene) \<and>
   alignElements noOverlaps AlignLeft connectedScene = (False, connectedScene)"
proof -
  have sel: "filterQucsItems threeComponents (selectedItems threeComponents) = [0, 1, 2]"
    by (simp add: distribute_eval scene_eval threeComponents_def)
  have pos: "posOf threeComponents 1 = (0, 0)" "posOf threeComponents 2 = (30, 5)"
    "posOf threeComponents 0 = (90, 0)"
    by (simp_all add: scene_eval threeComponents_def)
  have nw: "\<not> isWire 1 threeComponents" "\<not> isWire 2 threeComponents"
    "\<not> isWire 0 threeComponents"
    by (simp_all add: scene_eval threeComponents_def)
  have st: "set [0, 1, 2 :: nat] = {1, 2, 0}" by auto
  have none: "length (filterQucsItems connectedScene (selectedItems connectedScene)) < 2"
    by (simp add: distribute_eval scene_eval connectedScene_def)
  from distribute_align_selection
    [of threeComponents noOverlaps Horizontal AlignLeft 1 2 0 0 5 0]
  obtain s' where
    "distributeElements noOverlaps Horizontal threeComponents = Inr (True, s')"
    "posOf s' 1 = (0, 0)" "posOf s' 2 = (45, 5)" "posOf s' 0 = (90, 0)"
    using sel pos nw st by auto
  then have "positionsAfter [1, 2, 0]
      (distributeElements noOverlaps Horizontal threeComponents)
     = Inr (True, [(0, 0), (45, 5), (90, 0)])"
    by (simp add: positionsAfter_def)
  then show ?thesis
    using none distribute_align_selection
      [of connectedScene noOverlaps Horizontal AlignLeft]
    by simp
qed


section \<open>Label suffixes\<close>

lemma toInt_range: "toInt str = Some v \<Longrightarrow> - (2 ^ 31) \<le> v \<and> v < 2 ^ 31"
  by (cases str) (auto simp: inIntRange_def split: if_splits list.splits option.splits)

lemma labelSuffixStep_max:
  "labelSuffixStep prefix s m item =
     foldl max m (map (\<lambda>v. to_int32 (v + 1)) (suffixOf prefix s item))"
  by (simp add: labelSuffixStep_def suffixOf_def split: option.splits)

lemma foldl_labelSuffixStep:
  "foldl (labelSuffixStep prefix s) m ps =
     foldl max m (map (\<lambda>v. to_int32 (v + 1)) (concat (map (suffixOf prefix s) ps)))"
  by (induction ps arbitrary: m) (simp_all add: labelSuffixStep_max)

lemma foldl_max_Max:
  fixes m :: int
  shows "foldl max m xs = Max (set (m # xs))"
proof -
  have "foldl max m xs = fold max xs m"
    by (simp add: foldl_conv_fold max.commute)
  also have "\<dots> = Max (set (m # xs))" by (rule Max.set_eq_fold [symmetric])
  finally show ?thesis .
qed

lemma suffixOf_toInt:
  assumes "v \<in> set (suffixOf prefix s item)"
  shows "\<exists>c. lookupItem item s = Some c \<and> itemKind c = ComponentItem
           \<and> labelPrefix c = prefix \<and> toInt (labelSuffix c) = Some v"
proof (cases "lookupItem item s")
  case None
  then show ?thesis using assms by (simp add: suffixOf_def)
next
  case (Some c)
  show ?thesis
  proof (cases "itemKind c = ComponentItem \<and> labelPrefix c = prefix")
    case False
    have "suffixOf prefix s item = []"
      unfolding suffixOf_def Some using False by auto
    then show ?thesis using assms by simp
  next
    case True
    then have "v \<in> set (case toInt (labelSuffix c) of None \<Rightarrow> [] | Some suffix \<Rightarrow> [suffix])"
      using assms Some by (simp add: suffixOf_def)
    then have "toInt (labelSuffix c) = Some v"
      by (cases "toInt (labelSuffix c)") simp_all
    then show ?thesis using Some True by simp
  qed
qed

lemma suffixOf_range:
  assumes "v \<in> set (suffixOf prefix s item)"
  shows "- (2 ^ 31) \<le> v"
proof -
  from suffixOf_toInt [OF assms] obtain c :: QucsItem where "toInt (labelSuffix c) = Some v" by blast
  then show ?thesis by (rule toInt_range [THEN conjunct1])
qed

lemma sameLabelSuffixes_range:
  assumes "v \<in> set (sameLabelSuffixes prefix s)"
  shows "- (2 ^ 31) \<le> v"
proof -
  from assms obtain item where "v \<in> set (suffixOf prefix s item)"
    by (auto simp: sameLabelSuffixes_def)
  then show ?thesis by (rule suffixOf_range)
qed

lemma componentLabelSuffix_Max:
  assumes "\<forall>v \<in> set (sameLabelSuffixes prefix s). v < 2 ^ 31 - 1"
  shows "componentLabelSuffix prefix s
           = Max (set (1 # map (\<lambda>v. v + 1) (sameLabelSuffixes prefix s)))"
proof -
  have "map (\<lambda>v. to_int32 (v + 1)) (sameLabelSuffixes prefix s)
          = map (\<lambda>v. v + 1) (sameLabelSuffixes prefix s)"
  proof (rule map_cong [OF refl])
    fix v assume v: "v \<in> set (sameLabelSuffixes prefix s)"
    then have "- (2 ^ 31) \<le> v" "v < 2 ^ 31 - 1"
      using assms sameLabelSuffixes_range by auto
    then show "to_int32 (v + 1) = v + 1" by (intro to_int32_id) auto
  qed
  then have "foldl max 1 (map (\<lambda>v. to_int32 (v + 1)) (sameLabelSuffixes prefix s))
          = foldl max 1 (map (\<lambda>v. v + 1) (sameLabelSuffixes prefix s))"
    by (rule arg_cong)
  moreover have "componentLabelSuffix prefix s
          = foldl max 1 (map (\<lambda>v. to_int32 (v + 1)) (sameLabelSuffixes prefix s))"
    by (simp only: componentLabelSuffix_def foldl_labelSuffixStep sameLabelSuffixes_def)
  ultimately show ?thesis by (simp only: foldl_max_Max)
qed

lemma componentLabelSuffix_facts:
  assumes "\<forall>v \<in> set (sameLabelSuffixes prefix s). v < 2 ^ 31 - 1"
  shows "\<forall>v \<in> set (sameLabelSuffixes prefix s). v < componentLabelSuffix prefix s"
    and "(\<exists>v \<in> set (sameLabelSuffixes prefix s). 0 \<le> v) \<longrightarrow>
           componentLabelSuffix prefix s = Max (set (sameLabelSuffixes prefix s)) + 1"
    and "(\<forall>v \<in> set (sameLabelSuffixes prefix s). v < 0) \<longrightarrow>
           componentLabelSuffix prefix s = 1"
proof -
  let ?S = "set (sameLabelSuffixes prefix s)"
  have e: "componentLabelSuffix prefix s = Max (insert 1 ((\<lambda>v. v + 1) ` ?S))"
    using componentLabelSuffix_Max [OF assms] by simp
  have fin: "finite (insert 1 ((\<lambda>v. v + 1) ` ?S))" by simp
  show "\<forall>v \<in> ?S. v < componentLabelSuffix prefix s"
  proof
    fix v assume "v \<in> ?S"
    then have "v + 1 \<le> Max (insert 1 ((\<lambda>v. v + 1) ` ?S))"
      by (intro Max_ge fin) simp
    then show "v < componentLabelSuffix prefix s" using e by simp
  qed
  show "(\<exists>v \<in> ?S. 0 \<le> v) \<longrightarrow> componentLabelSuffix prefix s = Max ?S + 1"
  proof
    assume "\<exists>v \<in> ?S. 0 \<le> v"
    then obtain v where v: "v \<in> ?S" "0 \<le> v" by blast
    then have ne: "?S \<noteq> {}" by auto
    have "Max ((\<lambda>v. v + 1) ` ?S) = Max ?S + 1"
      using Max_add_commute [of ?S "\<lambda>v. v" 1] ne by simp
    moreover have "v \<le> Max ?S" using v by (intro Max_ge) simp_all
    then have "1 \<le> Max ?S + 1" using v by linarith
    ultimately show "componentLabelSuffix prefix s = Max ?S + 1"
      using e ne by (simp add: max_def)
  qed
  show "(\<forall>v \<in> ?S. v < 0) \<longrightarrow> componentLabelSuffix prefix s = 1"
  proof
    assume a: "\<forall>v \<in> ?S. v < 0"
    have "Max (insert 1 ((\<lambda>v. v + 1) ` ?S)) = 1"
    proof (rule Max_eqI [OF fin])
      fix y assume "y \<in> insert 1 ((\<lambda>v. v + 1) ` ?S)"
      then show "y \<le> 1" using a by auto
    qed simp
    then show "componentLabelSuffix prefix s = 1" using e by simp
  qed
qed

lemma lookupItem_checkAndConnect_any:
  "lookupItem p (checkAndConnect cac opt w s) = lookupItem p s"
  by (rule by_objects) simp

lemma labelSuffixAfterPlacing_eq:
  assumes c: "lookupItem item s = Some c" and k: "itemKind c = ComponentItem"
    and s1: "s1 = (if onScene c then updateItem item (\<lambda>it. it\<lparr>onScene := False\<rparr>) s else s)"
  shows "labelSuffixAfterPlacing cac item pos opt s
           = Some (numberText (componentLabelSuffix (labelPrefix c) s1))"
  using c k unfolding s1
  by (cases opt)
     (simp_all add: labelSuffixAfterPlacing_def placeItem_def Let_def lookupItem_updateItem
        isComponent_def hasKind_def setPos_def push_def lookupItem_checkAndConnect_any)

text \<open>
  C7, as the code has it otherwise: placing the component \<open>R\<close> beside a resistor whose
  suffix is \<open>-5\<close> gives it the suffix 1, where the largest suffix plus one is \<open>-4\<close>.
\<close>

theorem placeItem_negative_suffix_counterexample:
  "labelSuffixAfterPlacing noOverlaps 1 (50, 0) PushUndoCmd negativeSuffix = Some ''1''
   \<and> numberText (Max (set (sameLabelSuffixes ''R'' negativeSuffix)) + 1) = ''-4''"
  by code_simp

text \<open>
  C7: \<open>placeItem\<close> takes the component off the scene if it is on it, and gives it the
  suffix \<open>componentLabelSuffix\<close> returns for its prefix: the largest of 1 and of each
  numeric suffix, plus one, of the components with that prefix then on the scene. That
  number is above every such suffix, and it is the largest of them plus one as soon as one
  of them is not negative. Suffixes are below \<open>INT_MAX\<close>, so that \<open>suffix + 1\<close> is defined.
\<close>

theorem placeItem_label_suffix:
  assumes "lookupItem item s = Some c" and "itemKind c = ComponentItem"
    and "s1 = (if onScene c then updateItem item (\<lambda>it. it\<lparr>onScene := False\<rparr>) s else s)"
    and "\<forall>v \<in> set (sameLabelSuffixes (labelPrefix c) s1). v < 2 ^ 31 - 1"
  shows "labelSuffixAfterPlacing cac item pos opt s
           = Some (numberText (componentLabelSuffix (labelPrefix c) s1))
         \<and> componentLabelSuffix (labelPrefix c) s1
           = Max (set (1 # map (\<lambda>v. v + 1) (sameLabelSuffixes (labelPrefix c) s1)))
         \<and> (\<forall>v \<in> set (sameLabelSuffixes (labelPrefix c) s1).
               v < componentLabelSuffix (labelPrefix c) s1)
         \<and> ((\<exists>v \<in> set (sameLabelSuffixes (labelPrefix c) s1). 0 \<le> v) \<longrightarrow>
               componentLabelSuffix (labelPrefix c) s1
                 = Max (set (sameLabelSuffixes (labelPrefix c) s1)) + 1)"
  using labelSuffixAfterPlacing_eq [OF assms(1,2,3)] componentLabelSuffix_Max [OF assms(4)]
    componentLabelSuffix_facts(1,2) [OF assms(4)]
  by blast

theorem placeItem_label_suffix_witness:
  "labelSuffixAfterPlacing noOverlaps 2 (50, 0) PushUndoCmd twoResistors = Some ''3''"
proof -
  let ?c = "(newComponent ''R'' [] (0, 0))\<lparr>onScene := False\<rparr>"
  have a: "lookupItem 2 twoResistors = Some ?c"
    by (simp add: lookupItem_def twoResistors_def)
  have b: "itemKind ?c = ComponentItem" and p: "labelPrefix ?c = ''R''"
    by (simp_all add: newComponent_def newItem_def)
  have s1: "twoResistors =
      (if onScene ?c then updateItem 2 (\<lambda>it. it\<lparr>onScene := False\<rparr>) twoResistors
       else twoResistors)"
    by simp
  have sufs: "sameLabelSuffixes ''R'' twoResistors = [1, 2]" by code_simp
  have d: "\<forall>v \<in> set (sameLabelSuffixes (labelPrefix ?c) twoResistors). v < 2 ^ 31 - 1"
    by (simp add: p sufs)
  have t: "numberText 3 = ''3''" by code_simp
  from placeItem_label_suffix [OF a b s1 d, of noOverlaps "(50, 0)" PushUndoCmd]
  have "labelSuffixAfterPlacing noOverlaps 2 (50, 0) PushUndoCmd twoResistors
          = Some (numberText (Max (set (1 # map (\<lambda>v. v + 1) [1, 2]))))"
    by (simp add: p sufs)
  then show ?thesis by (simp add: t)
qed


section \<open>Pasting from the clipboard\<close>

lemma findRoot_none:
  "\<not> list_ex isQucsStart tokens \<Longrightarrow>
     fst (findRoot tokens) = None \<or> fst (findRoot tokens) = Some InvalidToken"
  by (induction tokens rule: findRoot.induct) simp_all

lemma paste_no_root:
  assumes "\<not> list_ex isQucsStart tokens"
  shows "paste checkVersion load env tokens s = Inr s"
  using findRoot_none [OF assms]
  by (cases "findRoot tokens") (auto simp: paste_def)

lemma paste_bad_version:
  assumes "findRoot tokens = (Some (StartElement name attrs), ts)"
    and "\<not> checkVersion (attributeValue attrs ''version'')"
  shows "paste checkVersion load env tokens s = Inr s"
  using assms by (simp add: paste_def)

lemma undoStack_allocateItems:
  "m_undoStack (snd (allocateItems its s)) = m_undoStack s"
  by (induction its arbitrary: s) (simp_all add: Let_def)

lemma undoStack_resetStateWiring:
  "resetStateWiring s = Inr s' \<Longrightarrow> m_undoStack s' = m_undoStack s"
  by (auto simp: resetStateWiring_def andThen_def currentWire_def Let_def
      split: wiringStateEnum.splits sum.splits option.splits prod.splits)

lemma undoStack_resetState:
  assumes "resetState s = Inr s'"
  shows "m_undoStack s' = m_undoStack s"
proof -
  let ?s3 = "(foldl (\<lambda>t p. deleteObject p t) (clearSelection (s\<lparr>sceneFocusItem := None\<rparr>))
               (m_insertibles (clearSelection (s\<lparr>sceneFocusItem := None\<rparr>))))\<lparr>m_insertibles := []\<rparr>"
  have a: "m_undoStack ?s3 = m_undoStack s"
    by (simp add: same_foldl [where g = m_undoStack] clearSelection_def)
  from assms obtain s4 where r: "resetStateWiring ?s3 = Inr s4"
    and e: "s' = (deletePointer (m_paintingDrawItem s4) s4)
                   \<lparr>m_paintingDrawItem := None, m_paintingDrawClicks := 0, m_zoomBand := None\<rparr>"
    by (auto simp: resetState_def Let_def andThen_def split: sum.splits)
  have "m_undoStack s' = m_undoStack s4"
    unfolding e by (simp add: deletePointer_def split: option.splits)
  then show ?thesis using undoStack_resetStateWiring [OF r] a by simp
qed

lemma undoStack_beginInsertingItems:
  assumes "beginInsertingItems env items s = Inr s'"
  shows "m_undoStack s' = m_undoStack s"
proof (cases "activeView s = None")
  case True
  then show ?thesis using assms by (simp add: beginInsertingItems_def)
next
  case False
  then obtain s1 where r: "resetState s = Inr s1"
    and e: "s' = foldl (moveBy (insertDelta env))
                  (foldl (prepareInsertible env) (s1\<lparr>m_insertibles := items\<rparr>) items) items"
    using assms
    by (auto simp: beginInsertingItems_def Let_def andThen_def same_foldl [where g = m_insertibles]
        prepareInsertible_def updateItem_def split: sum.splits)
  have "m_undoStack s' = m_undoStack s1"
    unfolding e
    by (simp add: same_foldl [where g = m_undoStack] moveBy_def prepareInsertible_def)
  then show ?thesis using undoStack_resetState [OF r] by simp
qed

lemma undoStack_paste:
  assumes "paste checkVersion load env tokens s = Inr s'"
  shows "m_undoStack s' = m_undoStack s"
proof (cases "findRoot tokens")
  case (Pair t ts)
  show ?thesis
  proof (cases "\<exists>name attrs. t = Some (StartElement name attrs)
                  \<and> checkVersion (attributeValue attrs ''version'')")
    case True
    then obtain name attrs where t: "t = Some (StartElement name attrs)"
      and v: "checkVersion (attributeValue attrs ''version'')" by blast
    have "beginInsertingItems env (fst (allocateItems (readItems load ts) s))
            (snd (allocateItems (readItems load ts) s)) = Inr s'"
      using assms Pair t v by (simp add: paste_def Let_def)
    from undoStack_beginInsertingItems [OF this] show ?thesis
      by (simp add: undoStack_allocateItems)
  next
    case False
    then have "paste checkVersion load env tokens s = Inr s"
      using Pair by (auto simp: paste_def split: option.splits XmlToken.splits)
    then show ?thesis using assms by simp
  qed
qed

lemma paste_unknown_kind_payload_runs:
  "insertionAfter (paste knownVersion resistorLoader cursorOnView unknownKindPayload viewedScene)
     \<noteq> None"
  by code_simp

text \<open>
  C9, as the code has it otherwise: a payload with a component and then an element of no
  known kind. The paste goes on: the component read before that element is in the
  insertion list and among the items of the scene.
\<close>

theorem paste_unknown_kind_counterexample:
  "insertionAfter (paste knownVersion resistorLoader cursorOnView unknownKindPayload viewedScene)
     = Some ([0], [0])"
  by code_simp

text \<open>
  C9, amended: when the payload has no start element \<open>qucs\<close>, or the version of its
  \<open>qucs\<close> element fails \<open>checkVersion\<close>, \<open>paste\<close> returns with the scene as it was. No
  paste, of any payload, changes the undo stack. An element that is not a component, a
  wire or a painting is passed over: reading goes on with the token after its start.
\<close>

theorem paste_malformed_payload:
  "(\<not> list_ex isQucsStart tokens \<longrightarrow> paste checkVersion load env tokens s = Inr s)
   \<and> (findRoot tokens = (Some (StartElement name attrs), ts)
        \<and> \<not> checkVersion (attributeValue attrs ''version'') \<longrightarrow>
          paste checkVersion load env tokens s = Inr s)
   \<and> (paste checkVersion load env tokens s = Inr s' \<longrightarrow> m_undoStack s' = m_undoStack s)
   \<and> (kind \<noteq> ''component'' \<and> kind \<noteq> ''wire'' \<and> kind \<noteq> ''painting'' \<longrightarrow>
          readItems load (StartElement kind attrs' # rest) = readItems load rest)"
proof (intro conjI impI)
  assume "\<not> list_ex isQucsStart tokens"
  then show "paste checkVersion load env tokens s = Inr s" by (rule paste_no_root)
next
  assume "findRoot tokens = (Some (StartElement name attrs), ts)
        \<and> \<not> checkVersion (attributeValue attrs ''version'')"
  then show "paste checkVersion load env tokens s = Inr s"
    using paste_bad_version by blast
next
  assume "paste checkVersion load env tokens s = Inr s'"
  then show "m_undoStack s' = m_undoStack s" by (rule undoStack_paste)
next
  assume "kind \<noteq> ''component'' \<and> kind \<noteq> ''wire'' \<and> kind \<noteq> ''painting''"
  then show "readItems load (StartElement kind attrs' # rest) = readItems load rest"
    by simp
qed

theorem paste_malformed_payload_witness:
  "paste knownVersion resistorLoader cursorOnView wrongRootPayload viewedScene = Inr viewedScene
   \<and> paste knownVersion resistorLoader cursorOnView otherVersionPayload viewedScene
       = Inr viewedScene
   \<and> (\<exists>s'. paste knownVersion resistorLoader cursorOnView unknownKindPayload viewedScene = Inr s'
          \<and> m_undoStack s' = m_undoStack viewedScene)
   \<and> readItems resistorLoader [StartElement ''gadget'' [], EndElement, EndElement] = []"
proof (intro conjI)
  show "paste knownVersion resistorLoader cursorOnView wrongRootPayload viewedScene
          = Inr viewedScene"
    by (rule paste_malformed_payload [THEN conjunct1, THEN mp])
       (simp add: wrongRootPayload_def)
next
  have "findRoot otherVersionPayload
          = (Some (StartElement ''qucs'' [(''version'', ''9.9'')]),
             [StartElement ''component'' [], EndElement, EndElement])
        \<and> \<not> knownVersion (attributeValue [(''version'', ''9.9'')] ''version'')"
    by (simp add: otherVersionPayload_def knownVersion_def attributeValue_def)
  then show "paste knownVersion resistorLoader cursorOnView otherVersionPayload viewedScene
          = Inr viewedScene"
    by (rule paste_malformed_payload [THEN conjunct2, THEN conjunct1, THEN mp])
next
  have "\<exists>s'. paste knownVersion resistorLoader cursorOnView unknownKindPayload viewedScene
          = Inr s'"
    using paste_unknown_kind_payload_runs
    by (cases "paste knownVersion resistorLoader cursorOnView unknownKindPayload viewedScene")
       (simp_all add: insertionAfter_def)
  then obtain s' where
    r: "paste knownVersion resistorLoader cursorOnView unknownKindPayload viewedScene = Inr s'"
    by blast
  from paste_malformed_payload [THEN conjunct2, THEN conjunct2, THEN conjunct1, THEN mp, OF r]
  have "m_undoStack s' = m_undoStack viewedScene" .
  then show "\<exists>s'. paste knownVersion resistorLoader cursorOnView unknownKindPayload viewedScene
          = Inr s' \<and> m_undoStack s' = m_undoStack viewedScene"
    using r by blast
next
  have "readItems resistorLoader [StartElement ''gadget'' [], EndElement, EndElement]
          = readItems resistorLoader [EndElement, EndElement]"
    by (rule paste_malformed_payload
          [THEN conjunct2, THEN conjunct2, THEN conjunct2, THEN mp]) simp
  then show "readItems resistorLoader [StartElement ''gadget'' [], EndElement, EndElement] = []"
    by simp
qed

end
